theory Spec2Isabelle
  imports Complex_Main "HOL-Library.Multiset"
begin

section \<open>Configuration\<close>

text \<open>
  The \<^verbatim>\<open>config.ridePooling\<close> object of the configuration module. The source reads it
  from the process environment once at start-up; every function that consults it takes
  it as its first argument here. JavaScript numbers are IEEE doubles; the development
  computes with integers where the database column is an INTEGER and with real numbers
  elsewhere, without rounding; where a NaN of the double arithmetic changes the control
  flow, in the route sequencer, the machine's distance function is an argument.
\<close>

record Config =
  maxPassengersPerPool :: int
  maxLuggageCapacity :: int
  maxDetourToleranceKm :: real
  baseFare :: real
  perKmRate :: real
  surgeMultiplierMax :: real
  poolDiscountPercent :: real

definition default_config :: Config where
  "default_config =
     \<lparr> maxPassengersPerPool = 4, maxLuggageCapacity = 8, maxDetourToleranceKm = 5,
       baseFare = 50, perKmRate = 15, surgeMultiplierMax = 5 / 2,
       poolDiscountPercent = 20 \<rparr>"

section \<open>Distance arithmetic\<close>

definition toRadians :: "real \<Rightarrow> real" where
  "toRadians degrees = degrees * (pi / 180)"

text \<open>\<^verbatim>\<open>Math.atan2(y, x)\<close> on finite arguments, signed zeros identified.\<close>

definition atan2 :: "real \<Rightarrow> real \<Rightarrow> real" where
  "atan2 y x =
     (if 0 < x then arctan (y / x)
      else if x < 0 then (if 0 \<le> y then arctan (y / x) + pi else arctan (y / x) - pi)
      else if 0 < y then pi / 2
      else if y < 0 then - (pi / 2)
      else 0)"

definition calculateDistance :: "real \<Rightarrow> real \<Rightarrow> real \<Rightarrow> real \<Rightarrow> real" where
  "calculateDistance lat1 lon1 lat2 lon2 =
     (let R = 6371;
          dLat = toRadians (lat2 - lat1);
          dLon = toRadians (lon2 - lon1);
          a = sin (dLat / 2) * sin (dLat / 2) +
              cos (toRadians lat1) * cos (toRadians lat2) * sin (dLon / 2) * sin (dLon / 2);
          c = 2 * atan2 (sqrt a) (sqrt (1 - a))
      in R * c)"

text \<open>
  \<^const>\<open>calculateDistance\<close> is the value of the formula over the real numbers, where
  \<open>a\<close> always lies between 0 and 1. The program evaluates the formula in double
  precision: for two points that are nearly antipodal the rounded \<open>a\<close> can exceed 1,
  \<^verbatim>\<open>Math.sqrt(1 - a)\<close> is then NaN and so is the distance returned. A NaN changes the
  control flow where a distance is compared with \<^verbatim>\<open>Infinity\<close>, which is what the route
  sequencer does. The sequencer, and every function that calls it, therefore takes the
  distance function of the machine as its first argument \<open>mdist\<close>; the value \<open>None\<close>
  stands for NaN. The double arithmetic and the \<^verbatim>\<open>Math\<close> library belong to the runtime
  and are not fixed any further. \<open>exact_distance\<close> is the distance function of a
  machine that does not round. The other uses of the distance add it up or compare it
  with a finite bound and keep the exact value.
\<close>

type_synonym machine_distance = "real \<Rightarrow> real \<Rightarrow> real \<Rightarrow> real \<Rightarrow> real option"

definition exact_distance :: machine_distance where
  "exact_distance lat1 lon1 lat2 lon2 = Some (calculateDistance lat1 lon1 lat2 lon2)"

section \<open>Ride requests\<close>

datatype RideStatus =
  Ride_pending | Ride_matched | Ride_confirmed | Ride_cancelled | Ride_completed

text \<open>
  A row of \<^verbatim>\<open>ride_requests\<close>. The location references and the created/updated
  timestamps play no part in matching, pricing or pool bookkeeping and are left out;
  \<^verbatim>\<open>requested_at\<close> is the millisecond count that \<^verbatim>\<open>getTime()\<close> returns.
\<close>

record RideRequest =
  rr_id :: string
  user_id :: string
  pickup_latitude :: real
  pickup_longitude :: real
  dropoff_latitude :: real
  dropoff_longitude :: real
  passenger_count :: int
  luggage_count :: int
  max_detour_km :: real
  rr_status :: RideStatus
  requested_at :: int

section \<open>Pricing\<close>

record PriceBreakdown =
  base_fare :: real
  distance_fare :: real
  subtotal :: real
  surge_multiplier :: real
  surge_amount :: real
  pool_discount :: real
  final_price :: real
  demand_factor :: real
  distance_km :: real

text \<open>
  \<^verbatim>\<open>parseFloat(x.toFixed(2))\<close>: \<^verbatim>\<open>toFixed\<close> prints the sign apart, hands magnitudes from
  \<open>10\<^sup>2\<^sup>1\<close> on to the plain number printer, and otherwise picks the integer \<open>n\<close> with
  \<open>n / 100\<close> nearest to the magnitude, the larger one on a tie.
\<close>

definition toFixed2 :: "real \<Rightarrow> real" where
  "toFixed2 x =
     (if 10 ^ 21 \<le> \<bar>x\<bar> then x
      else sgn x * (of_int \<lfloor>\<bar>x\<bar> * 100 + 1 / 2\<rfloor> / 100))"

definition calculateSurgeMultiplier :: "Config \<Rightarrow> real \<Rightarrow> real" where
  "calculateSurgeMultiplier cfg demandFactor =
     (let baseMultiplier = 1;
          surgeImpact = 1 / 2;
          calculatedSurge = baseMultiplier + demandFactor * surgeImpact
      in min calculatedSurge (surgeMultiplierMax cfg))"

definition calculatePoolDiscount :: "Config \<Rightarrow> int \<Rightarrow> real" where
  "calculatePoolDiscount cfg poolSize =
     (let baseDiscount = poolDiscountPercent cfg;
          bonusDiscount = (of_int poolSize - 1) * 5
      in min (baseDiscount + bonusDiscount) 30)"

text \<open>
  \<^verbatim>\<open>calculatePrice\<close>. The demand factor that the source awaits from
  \<^verbatim>\<open>getDemandFactor\<close> (a cache or database read) is the argument \<open>demandFactor\<close>.
\<close>

definition calculatePrice :: "Config \<Rightarrow> real \<Rightarrow> RideRequest \<Rightarrow> bool \<Rightarrow> int \<Rightarrow> PriceBreakdown" where
  "calculatePrice cfg demandFactor request isPooled poolSize =
     (let distance = calculateDistance (pickup_latitude request) (pickup_longitude request)
                       (dropoff_latitude request) (dropoff_longitude request);
          baseFare' = baseFare cfg;
          distanceFare = distance * perKmRate cfg;
          subtotal' = baseFare' + distanceFare;
          surgeMultiplier = calculateSurgeMultiplier cfg demandFactor;
          surgeAmount = subtotal' * (surgeMultiplier - 1);
          poolDiscount = (if isPooled
                          then (subtotal' + surgeAmount) * (calculatePoolDiscount cfg poolSize / 100)
                          else 0);
          finalPrice = max 0 (subtotal' + surgeAmount - poolDiscount)
      in \<lparr> base_fare = baseFare', distance_fare = distanceFare, subtotal = subtotal',
           surge_multiplier = surgeMultiplier, surge_amount = surgeAmount,
           pool_discount = poolDiscount, final_price = toFixed2 finalPrice,
           demand_factor = demandFactor, distance_km = toFixed2 distance \<rparr>)"

section \<open>Errors\<close>

text \<open>
  Every exception the modelled code can raise. \<open>TypeError\<close> is the property read on
  \<^verbatim>\<open>undefined\<close>; the next four are the \<^verbatim>\<open>Error\<close> objects thrown by the services, named
  after their messages; the last two are the database's refusals of a row that breaks
  a \<^verbatim>\<open>REFERENCES\<close> or \<^verbatim>\<open>UNIQUE\<close>/\<^verbatim>\<open>PRIMARY KEY\<close> constraint of the schema.
\<close>

datatype error =
    TypeError
  | RideRequestNotFound
  | RideRequestAlreadyCancelled
  | CannotCancelCompletedRide
  | RideAlreadyInPool
  | ForeignKeyViolation
  | UniqueViolation

section \<open>Route sequencing\<close>

datatype StopType = Pickup | Dropoff

record Stop =
  stop_id :: string
  lat :: real
  lon :: real
  stop_type :: StopType
  userId :: string
  requestId :: string

text \<open>
  The inner \<^verbatim>\<open>for\<close> loop of \<^verbatim>\<open>optimizeRoute\<close> over the indices still to scan. The pair
  \<open>(nearestIdx, minDistance)\<close> is \<open>None\<close> while it holds its initial value
  \<open>(-1, Infinity)\<close>: the two variables are only ever assigned together. The test
  \<^verbatim>\<open>distance < minDistance\<close> fails for a distance that is NaN, also against
  \<^verbatim>\<open>Infinity\<close>; any other distance is a finite number and is below \<^verbatim>\<open>Infinity\<close>.
\<close>

fun nearest_scan ::
  "machine_distance \<Rightarrow> Stop list \<Rightarrow> nat set \<Rightarrow> string set \<Rightarrow> Stop \<Rightarrow> nat list
     \<Rightarrow> (nat \<times> real) option \<Rightarrow> (nat \<times> real) option" where
  "nearest_scan mdist stops visited userPickedUp cur [] best = best"
| "nearest_scan mdist stops visited userPickedUp cur (i # rest) best =
     (if i \<in> visited then nearest_scan mdist stops visited userPickedUp cur rest best
      else if stop_type (stops ! i) = Dropoff \<and> userId (stops ! i) \<notin> userPickedUp
      then nearest_scan mdist stops visited userPickedUp cur rest best
      else
        (case mdist (lat cur) (lon cur) (lat (stops ! i)) (lon (stops ! i)) of
           None \<Rightarrow> nearest_scan mdist stops visited userPickedUp cur rest best
         | Some distance \<Rightarrow>
             if (case best of None \<Rightarrow> True | Some (_, minDistance) \<Rightarrow> distance < minDistance)
             then nearest_scan mdist stops visited userPickedUp cur rest (Some (i, distance))
             else nearest_scan mdist stops visited userPickedUp cur rest best))"

definition mark_picked_up :: "Stop \<Rightarrow> string set \<Rightarrow> string set" where
  "mark_picked_up s userPickedUp =
     (if stop_type s = Pickup then insert (userId s) userPickedUp else userPickedUp)"

text \<open>
  The \<^verbatim>\<open>while\<close> loop. Besides the three variables of the source the state counts, in
  \<open>fallbacks\<close>, the iterations that took the branch ``no valid next stop found''.
  When that branch finds no unvisited index either, the source reads \<^verbatim>\<open>stops[-1].type\<close>
  and throws. The loop is only entered with a non-empty \<open>optimized\<close>.
\<close>

function optimizeRoute_loop ::
  "machine_distance \<Rightarrow> Stop list \<Rightarrow> Stop list \<Rightarrow> nat set \<Rightarrow> string set \<Rightarrow> nat
     \<Rightarrow> error + (Stop list \<times> nat)" where
  "optimizeRoute_loop mdist stops optimized visited userPickedUp fallbacks =
     (if length optimized < length stops then
        (case nearest_scan mdist stops visited userPickedUp (last optimized)
                [0..<length stops] None of
           Some (nearestIdx, minDistance) \<Rightarrow>
             optimizeRoute_loop mdist stops (optimized @ [stops ! nearestIdx])
               (insert nearestIdx visited) (mark_picked_up (stops ! nearestIdx) userPickedUp)
               fallbacks
         | None \<Rightarrow>
             (case find (\<lambda>i. i \<notin> visited) [0..<length stops] of
                Some nearestIdx \<Rightarrow>
                  optimizeRoute_loop mdist stops (optimized @ [stops ! nearestIdx])
                    (insert nearestIdx visited) (mark_picked_up (stops ! nearestIdx) userPickedUp)
                    (Suc fallbacks)
              | None \<Rightarrow> Inl TypeError))
      else Inr (optimized, fallbacks))"
  by pat_completeness auto
termination
  by (relation "measure (\<lambda>(mdist, stops, optimized, visited, userPickedUp, fallbacks).
                  length stops - length optimized)") auto

declare optimizeRoute_loop.simps [simp del]

definition optimizeRoute_run :: "machine_distance \<Rightarrow> Stop list \<Rightarrow> error + (Stop list \<times> nat)" where
  "optimizeRoute_run mdist stops =
     (if length stops \<le> 1 then Inr (stops, 0)
      else optimizeRoute_loop mdist stops [stops ! 0] {0} (mark_picked_up (stops ! 0) {}) 0)"

definition optimizeRoute :: "machine_distance \<Rightarrow> Stop list \<Rightarrow> error + Stop list" where
  "optimizeRoute mdist stops =
     (case optimizeRoute_run mdist stops of
        Inl e \<Rightarrow> Inl e
      | Inr (optimized, fallbacks) \<Rightarrow> Inr optimized)"

definition calculateTotalDistance :: "Stop list \<Rightarrow> real" where
  "calculateTotalDistance route =
     (\<Sum>i\<leftarrow>[0..<length route - 1].
        calculateDistance (lat (route ! i)) (lon (route ! i))
          (lat (route ! (i + 1))) (lon (route ! (i + 1))))"

definition areLocationsCompatible ::
  "real \<times> real \<Rightarrow> real \<times> real \<Rightarrow> real \<times> real \<Rightarrow> real \<times> real \<Rightarrow> real \<Rightarrow> bool" where
  "areLocationsCompatible req1Pickup req1Dropoff req2Pickup req2Dropoff maxDetourKm =
     (let pickupDistance = calculateDistance (fst req1Pickup) (snd req1Pickup)
                             (fst req2Pickup) (snd req2Pickup);
          dropoffDistance = calculateDistance (fst req1Dropoff) (snd req1Dropoff)
                              (fst req2Dropoff) (snd req2Dropoff)
      in pickupDistance \<le> maxDetourKm \<and> dropoffDistance \<le> maxDetourKm * 2)"

section \<open>Pools and candidates\<close>

datatype PoolStatus =
  Pool_forming | Pool_confirmed | Pool_in_progress | Pool_completed | Pool_cancelled

text \<open>
  Rows of \<^verbatim>\<open>ride_pools\<close> and \<^verbatim>\<open>pool_members\<close>, without the departure, route summary and
  timestamp columns and without the generated key of a membership row, none of which
  the modelled code reads.
\<close>

record RidePool =
  rp_id :: string
  pool_code :: string
  rp_status :: PoolStatus
  current_passenger_count :: int
  current_luggage_count :: int
  max_passengers :: int
  max_luggage :: int

record PoolMember =
  pool_id :: string
  ride_request_id :: string
  pickup_sequence :: int
  dropoff_sequence :: int
  detour_distance_km :: real
  price :: real

record PoolCandidate =
  pool :: RidePool
  existingMembers :: "PoolMember list"
  existingRequests :: "RideRequest list"

record MatchResult =
  mr_pool :: RidePool
  mr_members :: "PoolMember list"
  total_savings :: real
  average_detour_km :: real

section \<open>Matching engine\<close>

definition checkCapacityConstraints :: "RidePool \<Rightarrow> RideRequest \<Rightarrow> bool" where
  "checkCapacityConstraints p request =
     (let hasPassengerCapacity =
            current_passenger_count p + passenger_count request \<le> max_passengers p;
          hasLuggageCapacity =
            current_luggage_count p + luggage_count request \<le> max_luggage p
      in hasPassengerCapacity \<and> hasLuggageCapacity)"

definition checkLocationCompatibility :: "Config \<Rightarrow> RideRequest \<Rightarrow> RideRequest list \<Rightarrow> bool" where
  "checkLocationCompatibility cfg newRequest existing =
     (if length existing = 0 then True
      else
        let maxDetour = maxDetourToleranceKm cfg
        in if list_ex (\<lambda>existingReq.
                  areLocationsCompatible
                    (pickup_latitude newRequest, pickup_longitude newRequest)
                    (dropoff_latitude newRequest, dropoff_longitude newRequest)
                    (pickup_latitude existingReq, pickup_longitude existingReq)
                    (dropoff_latitude existingReq, dropoff_longitude existingReq)
                    maxDetour) existing
           then True
           else length existing = 0)"

definition pickup_stop :: "RideRequest \<Rightarrow> Stop" where
  "pickup_stop req =
     \<lparr> stop_id = rr_id req @ ''-pickup'', lat = pickup_latitude req,
       lon = pickup_longitude req, stop_type = Pickup, userId = user_id req,
       requestId = rr_id req \<rparr>"

definition dropoff_stop :: "RideRequest \<Rightarrow> Stop" where
  "dropoff_stop req =
     \<lparr> stop_id = rr_id req @ ''-dropoff'', lat = dropoff_latitude req,
       lon = dropoff_longitude req, stop_type = Dropoff, userId = user_id req,
       requestId = rr_id req \<rparr>"

text \<open>The stops array that \<^verbatim>\<open>analyzeRouteWithNewMember\<close> builds.\<close>

definition build_stops :: "RideRequest \<Rightarrow> RideRequest list \<Rightarrow> Stop list" where
  "build_stops newRequest existing =
     concat (map (\<lambda>req. [pickup_stop req, dropoff_stop req]) existing)
       @ [pickup_stop newRequest, dropoff_stop newRequest]"

record RouteAnalysis =
  valid :: bool
  route :: "Stop list"
  detours :: "(string \<times> real) list"
  totalDistance :: real

definition invalid_analysis :: RouteAnalysis where
  "invalid_analysis = \<lparr> valid = False, route = [], detours = [], totalDistance = 0 \<rparr>"

text \<open>\<^verbatim>\<open>Map.prototype.set\<close> on a map kept as its list of entries in insertion order.\<close>

fun map_set :: "string \<Rightarrow> real \<Rightarrow> (string \<times> real) list \<Rightarrow> (string \<times> real) list" where
  "map_set k v [] = [(k, v)]"
| "map_set k v ((k', v') # rest) =
     (if k' = k then (k, v) # rest else (k', v') # map_set k v rest)"

text \<open>
  The search for a request's portion of the route: \<open>pickupIdx\<close> and \<open>dropoffIdx\<close>
  start at \<open>-1\<close> and take the position of every stop whose \<^verbatim>\<open>id\<close> equals the request's
  \<^verbatim>\<open>id\<close>, by stop type.
\<close>

fun find_portion :: "Stop list \<Rightarrow> string \<Rightarrow> nat list \<Rightarrow> int \<times> int \<Rightarrow> int \<times> int" where
  "find_portion optimizedRoute reqId [] (pickupIdx, dropoffIdx) = (pickupIdx, dropoffIdx)"
| "find_portion optimizedRoute reqId (i # rest) (pickupIdx, dropoffIdx) =
     (if stop_id (optimizedRoute ! i) = reqId
      then find_portion optimizedRoute reqId rest
             (if stop_type (optimizedRoute ! i) = Pickup then int i else pickupIdx,
              if stop_type (optimizedRoute ! i) = Dropoff then int i else dropoffIdx)
      else find_portion optimizedRoute reqId rest (pickupIdx, dropoffIdx))"

text \<open>The loop over \<^verbatim>\<open>[...existingRequests, newRequest]\<close> that fills the detour map.\<close>

fun analyze_loop ::
  "Config \<Rightarrow> Stop list \<Rightarrow> real \<Rightarrow> RideRequest list \<Rightarrow> (string \<times> real) list \<Rightarrow> RouteAnalysis" where
  "analyze_loop cfg optimizedRoute totalKm [] dets =
     \<lparr> valid = True, route = optimizedRoute, detours = dets, totalDistance = totalKm \<rparr>"
| "analyze_loop cfg optimizedRoute totalKm (req # rest) dets =
     (let directDistance = calculateDistance (pickup_latitude req) (pickup_longitude req)
                             (dropoff_latitude req) (dropoff_longitude req);
          (pickupIdx, dropoffIdx) =
             find_portion optimizedRoute (rr_id req) [0..<length optimizedRoute] (- 1, - 1)
      in if pickupIdx = - 1 \<or> dropoffIdx = - 1 then invalid_analysis
         else
           let actualDistance =
                 (\<Sum>i\<leftarrow>[pickupIdx..dropoffIdx - 1].
                    calculateDistance (lat (optimizedRoute ! nat i)) (lon (optimizedRoute ! nat i))
                      (lat (optimizedRoute ! nat (i + 1))) (lon (optimizedRoute ! nat (i + 1))));
               detour = actualDistance - directDistance;
               dets' = map_set (rr_id req) detour dets;
               maxDetour = min (max_detour_km req) (maxDetourToleranceKm cfg)
           in if detour > maxDetour then invalid_analysis
              else analyze_loop cfg optimizedRoute totalKm rest dets')"

definition analyzeRouteWithNewMember ::
  "machine_distance \<Rightarrow> Config \<Rightarrow> RideRequest \<Rightarrow> RideRequest list \<Rightarrow> PoolMember list
     \<Rightarrow> error + RouteAnalysis" where
  "analyzeRouteWithNewMember mdist cfg newRequest existing members =
     (case optimizeRoute mdist (build_stops newRequest existing) of
        Inl e \<Rightarrow> Inl e
      | Inr optimizedRoute \<Rightarrow>
          Inr (analyze_loop cfg optimizedRoute (calculateTotalDistance optimizedRoute)
                 (existing @ [newRequest]) []))"

definition calculateMatchScore :: "RouteAnalysis \<Rightarrow> RidePool \<Rightarrow> RideRequest \<Rightarrow> real" where
  "calculateMatchScore routeAnalysis p request =
     (let avgDetour = sum_list (map snd (detours routeAnalysis))
                        / real (length (detours routeAnalysis));
          utilizationScore = real_of_int (current_passenger_count p)
                               / real_of_int (max_passengers p);
          detourScore = max 0 (10 - avgDetour);
          distanceScore = max 0 (50 - totalDistance routeAnalysis)
      in utilizationScore * 30 + detourScore * 40 + distanceScore * 30)"

text \<open>The loop of \<^verbatim>\<open>findBestMatch\<close> over the available pools, collecting \<open>compatiblePools\<close>.\<close>

fun findBestMatch_loop ::
  "machine_distance \<Rightarrow> Config \<Rightarrow> RideRequest \<Rightarrow> PoolCandidate list
     \<Rightarrow> (PoolCandidate \<times> real) list \<Rightarrow> error + (PoolCandidate \<times> real) list" where
  "findBestMatch_loop mdist cfg request [] compatiblePools = Inr compatiblePools"
| "findBestMatch_loop mdist cfg request (poolCandidate # rest) compatiblePools =
     (if \<not> checkCapacityConstraints (pool poolCandidate) request
      then findBestMatch_loop mdist cfg request rest compatiblePools
      else if \<not> checkLocationCompatibility cfg request (existingRequests poolCandidate)
      then findBestMatch_loop mdist cfg request rest compatiblePools
      else
        (case analyzeRouteWithNewMember mdist cfg request (existingRequests poolCandidate)
                (existingMembers poolCandidate) of
           Inl e \<Rightarrow> Inl e
         | Inr routeAnalysis \<Rightarrow>
             if \<not> valid routeAnalysis
             then findBestMatch_loop mdist cfg request rest compatiblePools
             else findBestMatch_loop mdist cfg request rest
                    (compatiblePools
                       @ [(poolCandidate, calculateMatchScore routeAnalysis (pool poolCandidate) request)])))"

text \<open>
  \<^verbatim>\<open>findBestMatch\<close>; \<open>Inr None\<close> is the \<^verbatim>\<open>null\<close> result. \<^verbatim>\<open>Array.prototype.sort\<close> is stable,
  as \<^const>\<open>sort_key\<close> is; the comparator \<^verbatim>\<open>b.score - a.score\<close> orders by descending score.
\<close>

definition findBestMatch ::
  "machine_distance \<Rightarrow> Config \<Rightarrow> RideRequest \<Rightarrow> PoolCandidate list
     \<Rightarrow> error + PoolCandidate option" where
  "findBestMatch mdist cfg request availablePools =
     (case findBestMatch_loop mdist cfg request availablePools [] of
        Inl e \<Rightarrow> Inl e
      | Inr compatiblePools \<Rightarrow>
          if length compatiblePools = 0 then Inr None
          else Inr (Some (fst (hd (sort_key (\<lambda>c. - snd c) compatiblePools)))))"

subsection \<open>Batch pooling\<close>

text \<open>
  The inner loop of \<^verbatim>\<open>generateOptimalPools\<close> over the sorted requests, on the pair
  \<open>(compatible, assigned)\<close>; the second equation's second branch is the \<^verbatim>\<open>break\<close>.
\<close>

fun absorb_loop ::
  "Config \<Rightarrow> RideRequest list \<Rightarrow> RideRequest list \<times> string set
     \<Rightarrow> RideRequest list \<times> string set" where
  "absorb_loop cfg [] (compatible, assigned) = (compatible, assigned)"
| "absorb_loop cfg (otherRequest # rest) (compatible, assigned) =
     (if rr_id otherRequest \<in> assigned then absorb_loop cfg rest (compatible, assigned)
      else if int (length compatible) \<ge> maxPassengersPerPool cfg then (compatible, assigned)
      else if checkLocationCompatibility cfg otherRequest compatible then
        (let totalPassengers = sum_list (map passenger_count compatible)
                                 + passenger_count otherRequest;
             totalLuggage = sum_list (map luggage_count compatible)
                              + luggage_count otherRequest
         in if totalPassengers \<le> maxPassengersPerPool cfg
               \<and> totalLuggage \<le> maxLuggageCapacity cfg
            then absorb_loop cfg rest
                   (compatible @ [otherRequest], insert (rr_id otherRequest) assigned)
            else absorb_loop cfg rest (compatible, assigned))
      else absorb_loop cfg rest (compatible, assigned))"

text \<open>
  The outer loop, on \<open>(pools, assigned, logged)\<close>: \<open>pools\<close> is the array the function
  returns, and \<open>logged\<close> collects the member counts written to the log, one
  ``Created pool with \<open>n\<close> members'' line for each group.
\<close>

fun generate_loop ::
  "Config \<Rightarrow> RideRequest list \<Rightarrow> RideRequest list \<Rightarrow> MatchResult list \<times> string set \<times> nat list
     \<Rightarrow> MatchResult list \<times> string set \<times> nat list" where
  "generate_loop cfg sortedRequests [] (pools, assigned, logged) = (pools, assigned, logged)"
| "generate_loop cfg sortedRequests (request # rest) (pools, assigned, logged) =
     (if rr_id request \<in> assigned
      then generate_loop cfg sortedRequests rest (pools, assigned, logged)
      else
        let (compatible, assigned') =
              absorb_loop cfg sortedRequests ([request], insert (rr_id request) assigned)
        in generate_loop cfg sortedRequests rest
             (pools, assigned', logged @ [length compatible]))"

definition generateOptimalPools_run ::
  "Config \<Rightarrow> RideRequest list \<Rightarrow> MatchResult list \<times> string set \<times> nat list" where
  "generateOptimalPools_run cfg requests =
     (let sortedRequests = sort_key requested_at requests
      in generate_loop cfg sortedRequests sortedRequests ([], {}, []))"

definition generateOptimalPools :: "Config \<Rightarrow> RideRequest list \<Rightarrow> MatchResult list" where
  "generateOptimalPools cfg requests = fst (generateOptimalPools_run cfg requests)"

definition generateOptimalPools_logged :: "Config \<Rightarrow> RideRequest list \<Rightarrow> nat list" where
  "generateOptimalPools_logged cfg requests = snd (snd (generateOptimalPools_run cfg requests))"

section \<open>Persistent state\<close>

text \<open>
  The four tables the services write, each as its list of rows: \<^verbatim>\<open>SELECT ... WHERE\<close> is
  \<^const>\<open>filter\<close>, \<^verbatim>\<open>UPDATE ... WHERE\<close> is \<^const>\<open>map\<close>, \<^verbatim>\<open>DELETE ... WHERE\<close> keeps the other
  rows, \<^verbatim>\<open>INSERT\<close> appends. The cache is left out: the modelled operations only delete
  keys from it and never read it.
\<close>

record Database =
  ride_requests :: "RideRequest list"
  ride_pools :: "RidePool list"
  pool_members :: "PoolMember list"
  pricing_history :: "(string \<times> PriceBreakdown) list"

text \<open>
  Modelled from the spec: \<^verbatim>\<open>db.transaction\<close>, whose module is not among the sources.
  The spec has every mutation run ``under a concurrency-safe transaction'' that the
  coordinator commits, and a failure surfaced to the caller: the writes of a body that
  returns are kept, the writes of a body that throws are discarded and the exception
  is passed on.
\<close>

definition transaction ::
  "(Database \<Rightarrow> error + Database \<times> 'a) \<Rightarrow> Database \<Rightarrow> Database \<times> (error + 'a)" where
  "transaction body s =
     (case body s of Inl e \<Rightarrow> (s, Inl e) | Inr (s', v) \<Rightarrow> (s', Inr v))"

definition update_pool_counts :: "string \<Rightarrow> int \<Rightarrow> int \<Rightarrow> Database \<Rightarrow> Database" where
  "update_pool_counts poolId totalPassengers totalLuggage s =
     s\<lparr> ride_pools :=
          map (\<lambda>p. if rp_id p = poolId
                    then p\<lparr> current_passenger_count := totalPassengers,
                            current_luggage_count := totalLuggage \<rparr>
                    else p) (ride_pools s) \<rparr>"

definition recalculatePoolCapacityInternal :: "Database \<Rightarrow> string \<Rightarrow> Database" where
  "recalculatePoolCapacityInternal s poolId =
     (let rideIds = map ride_request_id (filter (\<lambda>m. pool_id m = poolId) (pool_members s))
      in if length rideIds = 0 then update_pool_counts poolId 0 0 s
         else
           let ridesResult = filter (\<lambda>r. rr_id r \<in> set rideIds) (ride_requests s);
               totalPassengers = sum_list (map passenger_count ridesResult);
               totalLuggage = sum_list (map luggage_count ridesResult)
           in update_pool_counts poolId totalPassengers totalLuggage s)"

text \<open>
  \<^verbatim>\<open>addMemberToPoolInternal\<close>. The demand factor read while pricing is the argument
  \<open>demandFactor\<close>. The membership row refers to its pool by a foreign key, so the
  insertion is refused when no pool has the given id; \<^verbatim>\<open>savePricingHistory\<close> appends
  the breakdown to the history.
\<close>

definition addMemberToPoolInternal ::
  "Config \<Rightarrow> real \<Rightarrow> Database \<Rightarrow> string \<Rightarrow> string \<Rightarrow> error + Database" where
  "addMemberToPoolInternal cfg demandFactor s poolId rideRequestId =
     (case filter (\<lambda>r. rr_id r = rideRequestId) (ride_requests s) of
        [] \<Rightarrow> Inl RideRequestNotFound
      | ride # _ \<Rightarrow>
          if length (filter (\<lambda>m. ride_request_id m = rideRequestId) (pool_members s)) > 0
          then Inl RideAlreadyInPool
          else
            let currentCount = int (length (filter (\<lambda>m. pool_id m = poolId) (pool_members s)));
                isPooled = currentCount > 0;
                poolSize = currentCount + 1;
                priceBreakdown = calculatePrice cfg demandFactor ride isPooled poolSize
            in if \<not> list_ex (\<lambda>p. rp_id p = poolId) (ride_pools s) then Inl ForeignKeyViolation
               else Inr (s\<lparr> pool_members := pool_members s @
                               [\<lparr> pool_id = poolId, ride_request_id = rideRequestId,
                                  pickup_sequence = currentCount + 1,
                                  dropoff_sequence = (currentCount + 1) * 2,
                                  detour_distance_km = 0,
                                  price = final_price priceBreakdown \<rparr>],
                             ride_requests :=
                               map (\<lambda>r. if rr_id r = rideRequestId
                                         then r\<lparr> rr_status := Ride_matched \<rparr> else r)
                                 (ride_requests s),
                             pricing_history :=
                               pricing_history s @ [(rideRequestId, priceBreakdown)] \<rparr>))"

definition addMemberToPool ::
  "Config \<Rightarrow> real \<Rightarrow> string \<Rightarrow> string \<Rightarrow> Database \<Rightarrow> Database \<times> (error + unit)" where
  "addMemberToPool cfg demandFactor poolId rideRequestId =
     transaction (\<lambda>s.
       case addMemberToPoolInternal cfg demandFactor s poolId rideRequestId of
         Inl e \<Rightarrow> Inl e
       | Inr s1 \<Rightarrow> Inr (recalculatePoolCapacityInternal s1 poolId, ()))"

text \<open>The loop of \<^verbatim>\<open>createPool\<close> that adds the initial members one after the other.\<close>

fun add_members ::
  "Config \<Rightarrow> real \<Rightarrow> Database \<Rightarrow> string \<Rightarrow> string list \<Rightarrow> error + Database" where
  "add_members cfg demandFactor s poolId [] = Inr s"
| "add_members cfg demandFactor s poolId (rideRequestId # rest) =
     (case addMemberToPoolInternal cfg demandFactor s poolId rideRequestId of
        Inl e \<Rightarrow> Inl e
      | Inr s1 \<Rightarrow> add_members cfg demandFactor s1 poolId rest)"

text \<open>
  \<^verbatim>\<open>createPool\<close>. The key the database generates for the new pool and the random code
  of \<^verbatim>\<open>generatePoolCode\<close> are the arguments \<open>newId\<close> and \<open>poolCode\<close>; both columns are
  unique. The function returns the row as it was inserted.
\<close>

definition createPool ::
  "Config \<Rightarrow> real \<Rightarrow> string \<Rightarrow> string \<Rightarrow> string list \<Rightarrow> Database
     \<Rightarrow> Database \<times> (error + RidePool)" where
  "createPool cfg demandFactor newId poolCode rideRequestIds =
     transaction (\<lambda>s.
       if list_ex (\<lambda>p. rp_id p = newId \<or> pool_code p = poolCode) (ride_pools s)
       then Inl UniqueViolation
       else
         let newPool = \<lparr> rp_id = newId, pool_code = poolCode, rp_status = Pool_forming,
                         current_passenger_count = 0, current_luggage_count = 0,
                         max_passengers = maxPassengersPerPool cfg,
                         max_luggage = maxLuggageCapacity cfg \<rparr>;
             s1 = s\<lparr> ride_pools := ride_pools s @ [newPool] \<rparr>
         in case add_members cfg demandFactor s1 newId rideRequestIds of
              Inl e \<Rightarrow> Inl e
            | Inr s2 \<Rightarrow> Inr (recalculatePoolCapacityInternal s2 newId, newPool))"

definition removeMemberFromPool :: "string \<Rightarrow> string \<Rightarrow> Database \<Rightarrow> Database \<times> (error + unit)" where
  "removeMemberFromPool poolId rideRequestId =
     transaction (\<lambda>s.
       let s1 = s\<lparr> pool_members :=
                     filter (\<lambda>m. \<not> (pool_id m = poolId \<and> ride_request_id m = rideRequestId))
                       (pool_members s) \<rparr>;
           s2 = recalculatePoolCapacityInternal s1 poolId;
           memberCount = length (filter (\<lambda>m. pool_id m = poolId) (pool_members s2));
           s3 = (if memberCount = 0
                 then s2\<lparr> ride_pools :=
                            map (\<lambda>p. if rp_id p = poolId
                                      then p\<lparr> rp_status := Pool_cancelled \<rparr> else p)
                              (ride_pools s2) \<rparr>
                 else s2)
       in Inr (s3, ()))"

text \<open>
  \<^verbatim>\<open>cancelRideRequest\<close>. The call of \<^verbatim>\<open>recalculatePoolCapacity\<close> in the last branch is
  written on the state of the enclosing transaction.
\<close>

definition cancelRideRequest :: "string \<Rightarrow> Database \<Rightarrow> Database \<times> (error + RideRequest)" where
  "cancelRideRequest rid =
     transaction (\<lambda>s.
       case filter (\<lambda>r. rr_id r = rid) (ride_requests s) of
         [] \<Rightarrow> Inl RideRequestNotFound
       | rideRequest # _ \<Rightarrow>
           if rr_status rideRequest = Ride_cancelled then Inl RideRequestAlreadyCancelled
           else if rr_status rideRequest = Ride_completed then Inl CannotCancelCompletedRide
           else
             let s1 = s\<lparr> ride_requests :=
                           map (\<lambda>r. if rr_id r = rid then r\<lparr> rr_status := Ride_cancelled \<rparr> else r)
                             (ride_requests s) \<rparr>;
                 updatedRequest = rideRequest\<lparr> rr_status := Ride_cancelled \<rparr>;
                 s3 = (if rr_status rideRequest = Ride_matched
                       then
                         let s2 = s1\<lparr> pool_members :=
                                       filter (\<lambda>m. ride_request_id m \<noteq> rid) (pool_members s1) \<rparr>;
                             poolResult = filter (\<lambda>m. ride_request_id m = rid) (pool_members s2)
                         in (case poolResult of
                               [] \<Rightarrow> s2
                             | m # _ \<Rightarrow> recalculatePoolCapacityInternal s2 (pool_id m))
                       else s1)
             in Inr (s3, updatedRequest))"

section \<open>Notions used in the statements and proofs\<close>

text \<open>
  An index can be chosen by the scan of \<^verbatim>\<open>optimizeRoute\<close> when it is unvisited and is not
  the dropoff of a rider who has not been picked up.
\<close>

definition eligible :: "Stop list \<Rightarrow> nat set \<Rightarrow> string set \<Rightarrow> nat \<Rightarrow> bool" where
  "eligible stops V U i \<longleftrightarrow>
     i \<notin> V \<and> \<not> (stop_type (stops ! i) = Dropoff \<and> userId (stops ! i) \<notin> U)"

text \<open>
  The scan takes account of an index when it is eligible and the machine's distance
  from the current stop to it is a number. A stop list is free of NaN when the distance
  between any two of its stops is a number.
\<close>

definition takeable ::
  "machine_distance \<Rightarrow> Stop list \<Rightarrow> nat set \<Rightarrow> string set \<Rightarrow> Stop \<Rightarrow> nat \<Rightarrow> bool" where
  "takeable mdist stops V U cur i \<longleftrightarrow>
     eligible stops V U i
     \<and> mdist (lat cur) (lon cur) (lat (stops ! i)) (lon (stops ! i)) \<noteq> None"

definition nan_free :: "machine_distance \<Rightarrow> Stop list \<Rightarrow> bool" where
  "nan_free mdist stops \<longleftrightarrow>
     list_all (\<lambda>a. list_all (\<lambda>b. mdist (lat a) (lon a) (lat b) (lon b) \<noteq> None) stops) stops"

text \<open>
  A well-formed stop list holds, for every rider that occurs in it, exactly one
  pickup stop and exactly one dropoff stop. In a route that respects the constraint
  every pickup stands before the dropoff of the same rider. \<open>served_before\<close> is the
  state of a partial visiting order in which every dropoff visited so far has the
  pickup of its rider before it.
\<close>

definition one_stop_each :: "Stop list \<Rightarrow> bool" where
  "one_stop_each stops \<longleftrightarrow>
     (\<forall>u \<in> set (map userId stops).
        length (filter (\<lambda>s. userId s = u \<and> stop_type s = Pickup) stops) = 1
      \<and> length (filter (\<lambda>s. userId s = u \<and> stop_type s = Dropoff) stops) = 1)"

definition pickup_before_dropoff :: "Stop list \<Rightarrow> bool" where
  "pickup_before_dropoff r \<longleftrightarrow>
     (\<forall>i < length r. \<forall>j < length r.
        stop_type (r ! i) = Pickup \<and> stop_type (r ! j) = Dropoff
          \<and> userId (r ! i) = userId (r ! j) \<longrightarrow> i < j)"

definition served_before :: "Stop list \<Rightarrow> nat list \<Rightarrow> bool" where
  "served_before stops order \<longleftrightarrow>
     (\<forall>j < length order.
        stop_type (stops ! (order ! j)) = Dropoff \<longrightarrow>
        (\<exists>k < j. stop_type (stops ! (order ! k)) = Pickup
                \<and> userId (stops ! (order ! k)) = userId (stops ! (order ! j))))"

definition picked_up :: "Stop list \<Rightarrow> nat list \<Rightarrow> string set" where
  "picked_up stops order =
     {userId (stops ! i) | i. i \<in> set order \<and> stop_type (stops ! i) = Pickup}"

text \<open>
  The number of membership rows of a pool, as \<^verbatim>\<open>SELECT COUNT(*)\<close> reports it, and the
  requests joined to a pool's membership rows. A pool's counters are consistent when
  they equal the passenger and luggage sums over those requests.
\<close>

definition member_count :: "PoolMember list \<Rightarrow> string \<Rightarrow> int" where
  "member_count members poolId = int (length (filter (\<lambda>m. pool_id m = poolId) members))"

definition pool_member_requests :: "Database \<Rightarrow> string \<Rightarrow> RideRequest list" where
  "pool_member_requests s poolId =
     concat (map (\<lambda>m. filter (\<lambda>r. rr_id r = ride_request_id m) (ride_requests s))
               (filter (\<lambda>m. pool_id m = poolId) (pool_members s)))"

definition counters_consistent :: "Database \<Rightarrow> bool" where
  "counters_consistent s \<longleftrightarrow>
     list_all (\<lambda>p. current_passenger_count p
                      = sum_list (map passenger_count (pool_member_requests s (rp_id p)))
                  \<and> current_luggage_count p
                      = sum_list (map luggage_count (pool_member_requests s (rp_id p))))
       (ride_pools s)"

text \<open>The counters of the pool rows with a given id equal the sums over its members.\<close>

definition pool_consistent :: "Database \<Rightarrow> string \<Rightarrow> bool" where
  "pool_consistent s poolId \<longleftrightarrow>
     list_all (\<lambda>p. rp_id p = poolId \<longrightarrow>
                  current_passenger_count p
                    = sum_list (map passenger_count (pool_member_requests s poolId))
                \<and> current_luggage_count p
                    = sum_list (map luggage_count (pool_member_requests s poolId)))
       (ride_pools s)"

text \<open>No request occurs twice among the membership rows of the pool.\<close>

definition members_unique :: "PoolMember list \<Rightarrow> string \<Rightarrow> bool" where
  "members_unique members poolId \<longleftrightarrow>
     distinct (map ride_request_id (filter (\<lambda>m. pool_id m = poolId) members))"

section \<open>Example inputs\<close>

text \<open>
  Requests along the meridian of longitude \<open>0\<close>: \<open>km_to_lat k\<close> is the latitude
  \<open>k\<close> kilometres north of the equator, so that two such points \<open>a\<close> and \<open>b\<close> are
  \<open>\<bar>b - a\<bar>\<close> kilometres apart. A \<open>meridian_request\<close> is picked up at one and dropped
  off at another.
\<close>

definition km_to_lat :: "real \<Rightarrow> real" where
  "km_to_lat k = k * 180 / (6371 * pi)"

definition meridian_request ::
  "string \<Rightarrow> string \<Rightarrow> real \<Rightarrow> real \<Rightarrow> int \<Rightarrow> int \<Rightarrow> real \<Rightarrow> RideStatus \<Rightarrow> int \<Rightarrow> RideRequest" where
  "meridian_request rid uid fromKm toKm passengers luggage maxDetour st reqAt =
     \<lparr> rr_id = rid, user_id = uid,
       pickup_latitude = km_to_lat fromKm, pickup_longitude = 0,
       dropoff_latitude = km_to_lat toKm, dropoff_longitude = 0,
       passenger_count = passengers, luggage_count = luggage,
       max_detour_km = maxDetour, rr_status = st, requested_at = reqAt \<rparr>"

text \<open>A ten kilometre ride and a one metre ride.\<close>

definition ride_10km :: RideRequest where
  "ride_10km = meridian_request ''r1'' ''u1'' 0 10 1 0 5 Ride_pending 0"

definition ride_1m :: RideRequest where
  "ride_1m = meridian_request ''r1'' ''u1'' 0 (1 / 1000) 1 0 5 Ride_pending 0"

text \<open>
  A request that tolerates one kilometre of detour, and a pool member picked up two
  kilometres from its pickup and dropped off three kilometres from its dropoff.
\<close>

definition strict_request :: RideRequest where
  "strict_request = meridian_request ''r2'' ''u2'' 2 23 1 0 1 Ride_pending 1"

definition member_request :: RideRequest where
  "member_request = meridian_request ''r1'' ''u1'' 0 20 3 1 5 Ride_matched 0"

text \<open>A request whose pickup lies a hundred kilometres from the member's.\<close>

definition far_request :: RideRequest where
  "far_request = meridian_request ''r3'' ''u3'' 100 120 1 0 5 Ride_pending 2"

text \<open>The stop list that the analysis builds for the strict request and the member.\<close>

definition example_stops :: "Stop list" where
  "example_stops = build_stops strict_request [member_request]"



text \<open>
  The matching scenario: a request that tolerates five kilometres, and a candidate
  pool holding three of four passengers whose one member is picked up two kilometres
  from the request's pickup and dropped off three kilometres from its dropoff.
\<close>

definition new_request :: RideRequest where
  "new_request = meridian_request ''r2'' ''u2'' 2 23 1 0 5 Ride_pending 1"

definition scenario_candidate :: PoolCandidate where
  "scenario_candidate =
     \<lparr> pool = \<lparr> rp_id = ''p1'', pool_code = ''POOLAAAAAA'', rp_status = Pool_forming,
                current_passenger_count = 3, current_luggage_count = 1,
                max_passengers = 4, max_luggage = 8 \<rparr>,
       existingMembers =
         [\<lparr> pool_id = ''p1'', ride_request_id = ''r1'', pickup_sequence = 1,
             dropoff_sequence = 2, detour_distance_km = 0, price = 350 \<rparr>],
       existingRequests = [member_request] \<rparr>"

text \<open>
  Five pending requests of one passenger each, submitted one after the other, with
  pickups within four kilometres of each other and dropoffs likewise.
\<close>

definition batch_requests :: "RideRequest list" where
  "batch_requests =
     [meridian_request ''a1'' ''u1'' 0 20 1 1 5 Ride_pending 1,
      meridian_request ''a2'' ''u2'' 1 21 1 1 5 Ride_pending 2,
      meridian_request ''a3'' ''u3'' 2 22 1 1 5 Ride_pending 3,
      meridian_request ''a4'' ''u4'' 3 23 1 1 5 Ride_pending 4,
      meridian_request ''a5'' ''u5'' 4 24 1 1 5 Ride_pending 5]"

text \<open>
  A database with one forming pool that holds the matched member request, and two
  pending requests; and a database with a cancelled and a completed request.
\<close>

definition db_example :: Database where
  "db_example =
     \<lparr> ride_requests = [member_request, new_request, far_request],
       ride_pools = [pool scenario_candidate],
       pool_members = existingMembers scenario_candidate,
       pricing_history = [] \<rparr>"

definition db_terminal :: Database where
  "db_terminal =
     \<lparr> ride_requests =
         [meridian_request ''r4'' ''u4'' 0 10 1 0 5 Ride_cancelled 3,
          meridian_request ''r5'' ''u5'' 0 10 1 0 5 Ride_completed 4],
       ride_pools = [], pool_members = [], pricing_history = [] \<rparr>"

section \<open>Distances along a meridian\<close>

text \<open>
  For the angle \<open>t\<close> of a quarter turn at most, \<open>atan2 (sin t) (cos t)\<close> gives \<open>t\<close>
  back, so between two points of one meridian the haversine formula returns the arc
  length \<open>R \<cdot> \<Delta>\<phi>\<close>.
\<close>

lemma atan2_sin_cos:
  assumes "0 \<le> t" "t < pi / 2"
  shows "atan2 (sin t) (cos t) = t"
proof -
  have c: "0 < cos t" using assms by (simp add: cos_gt_zero_pi)
  have "arctan (sin t / cos t) = arctan (tan t)" by (simp add: tan_def)
  also have "\<dots> = t" using assms by (simp add: arctan_tan)
  finally show ?thesis using c by (simp add: atan2_def)
qed

lemma calculateDistance_meridian:
  assumes "\<bar>lat2 - lat1\<bar> < 180"
  shows "calculateDistance lat1 lng lat2 lng = 6371 * (\<bar>lat2 - lat1\<bar> * pi / 180)"
proof -
  define t where "t = \<bar>lat2 - lat1\<bar> * pi / 360"
  have t0: "0 \<le> t" by (simp add: t_def)
  have "\<bar>lat2 - lat1\<bar> * pi < 180 * pi" using assms by simp
  then have t1: "t < pi / 2" by (simp add: t_def)
  have half: "toRadians (lat2 - lat1) / 2 = (lat2 - lat1) * pi / 360"
    by (simp add: toRadians_def)
  have sq: "sin (toRadians (lat2 - lat1) / 2) * sin (toRadians (lat2 - lat1) / 2) = (sin t)\<^sup>2"
  proof (cases "0 \<le> lat2 - lat1")
    case True
    then show ?thesis by (simp add: half t_def power2_eq_square)
  next
    case False
    then have "\<bar>lat2 - lat1\<bar> = - (lat2 - lat1)" by simp
    moreover have "(lat2 - lat1) * pi = - ((lat1 - lat2) * pi)" by (simp add: algebra_simps)
    ultimately have "(lat2 - lat1) * pi / 360 = - t" unfolding t_def by simp
    then show ?thesis by (simp add: half power2_eq_square)
  qed
  have s: "0 \<le> sin t" using t0 t1 pi_gt_zero by (intro sin_ge_zero) linarith+
  have c: "0 < cos t" using t0 t1 by (simp add: cos_gt_zero_pi)
  have a1: "sqrt ((sin t)\<^sup>2) = sin t" using s by simp
  have "1 - (sin t)\<^sup>2 = (cos t)\<^sup>2" by (simp add: cos_squared_eq)
  then have a2: "sqrt (1 - (sin t)\<^sup>2) = cos t" using c by simp
  have "calculateDistance lat1 lng lat2 lng = 6371 * (2 * atan2 (sin t) (cos t))"
    unfolding calculateDistance_def Let_def using sq a1 a2 by (simp add: toRadians_def)
  also have "\<dots> = 6371 * (2 * t)" using atan2_sin_cos [OF t0 t1] by simp
  finally show ?thesis by (simp add: t_def)
qed

lemma calculateDistance_km:
  assumes "\<bar>b - a\<bar> < 12742"
  shows "calculateDistance (km_to_lat a) 0 (km_to_lat b) 0 = \<bar>b - a\<bar>"
proof -
  define q where "q = 180 / (6371 * pi)"
  have q0: "0 < q" by (simp add: q_def)
  have d: "km_to_lat b - km_to_lat a = (b - a) * q"
    by (simp add: km_to_lat_def q_def left_diff_distrib diff_divide_distrib)
  have ad: "\<bar>km_to_lat b - km_to_lat a\<bar> = \<bar>b - a\<bar> * q"
    unfolding d using q0 by (simp add: abs_mult)
  have "\<bar>b - a\<bar> < 6371 * pi" using assms pi_ge_two by linarith
  then have "\<bar>b - a\<bar> * q < 6371 * pi * q" using q0 by simp
  also have "6371 * pi * q = 180" by (simp add: q_def)
  finally have "\<bar>km_to_lat b - km_to_lat a\<bar> < 180" by (simp add: ad)
  from calculateDistance_meridian [OF this]
  have "calculateDistance (km_to_lat a) 0 (km_to_lat b) 0 = 6371 * (\<bar>b - a\<bar> * q * pi / 180)"
    by (simp add: ad)
  then show ?thesis by (simp add: q_def)
qed

lemma default_config_fields:
  "maxPassengersPerPool default_config = 4" "maxLuggageCapacity default_config = 8"
  "maxDetourToleranceKm default_config = 5" "baseFare default_config = 50"
  "perKmRate default_config = 15" "surgeMultiplierMax default_config = 5 / 2"
  "poolDiscountPercent default_config = 20"
  by (simp_all add: default_config_def)

lemma ride_10km_distance:
  "calculateDistance (pickup_latitude ride_10km) (pickup_longitude ride_10km)
     (dropoff_latitude ride_10km) (dropoff_longitude ride_10km) = 10"
  by (simp add: ride_10km_def meridian_request_def calculateDistance_km)

section \<open>Pricing\<close>

text \<open>
  Claim C4 (pool discount scenario). With base fare 50, rate 15 per kilometre, a
  distance of 10 km and demand factor 0, the surge multiplier is 1 and the subtotal
  200; the solo price is 200. For a pooled ride with pool size 2 the code computes
  a discount of 25 percent (base 20 plus a bonus of 5 for the second rider), hence a
  pool discount of 50 and a final price of 150, where the scenario and the code's own
  comment (``2 riders: 20%'') expect 20 percent, 40 and 160.
\<close>

theorem pool_discount_scenario_fails:
  "surge_multiplier (calculatePrice default_config 0 ride_10km False 1) = 1
   \<and> subtotal (calculatePrice default_config 0 ride_10km False 1) = 200
   \<and> final_price (calculatePrice default_config 0 ride_10km False 1) = 200
   \<and> calculatePoolDiscount default_config 2 = 25
   \<and> pool_discount (calculatePrice default_config 0 ride_10km True 2) = 50
   \<and> final_price (calculatePrice default_config 0 ride_10km True 2) = 150"
  by (simp add: calculatePrice_def calculateSurgeMultiplier_def calculatePoolDiscount_def
      toFixed2_def Let_def default_config_fields ride_10km_distance)

text \<open>
  Claim C7 (pricing formula), as amended. The breakdown follows the formula: subtotal,
  surge multiplier, surge amount and pool discount are reported at full precision,
  the discount percentage being \<open>min (base + (poolSize - 1) \<cdot> 5) 30\<close> for a pooled ride and
  0 otherwise; two fields are rounded to two decimals, namely \<open>final_price\<close>, the
  rounded \<open>max 0 (subtotal + surge_amount - pool_discount)\<close>, and \<open>distance_km\<close>, the
  rounded distance.
\<close>

theorem calculatePrice_formula:
  fixes cfg :: Config and demandFactor :: real and request :: RideRequest
    and isPooled :: bool and poolSize :: int
  defines "b \<equiv> calculatePrice cfg demandFactor request isPooled poolSize"
    and "distanceKm \<equiv> calculateDistance (pickup_latitude request) (pickup_longitude request)
           (dropoff_latitude request) (dropoff_longitude request)"
    and "discount_pct \<equiv> (if isPooled
           then min (poolDiscountPercent cfg + (of_int poolSize - 1) * 5) 30 else 0)"
  shows "subtotal b = baseFare cfg + distanceKm * perKmRate cfg
       \<and> surge_multiplier b = min (1 + demandFactor * (1 / 2)) (surgeMultiplierMax cfg)
       \<and> surge_amount b = subtotal b * (surge_multiplier b - 1)
       \<and> pool_discount b = (subtotal b + surge_amount b) * discount_pct / 100
       \<and> final_price b = toFixed2 (max 0 (subtotal b + surge_amount b - pool_discount b))
       \<and> distance_km b = toFixed2 distanceKm
       \<and> base_fare b = baseFare cfg
       \<and> distance_fare b = distanceKm * perKmRate cfg
       \<and> demand_factor b = demandFactor"
  unfolding b_def distanceKm_def discount_pct_def
  by (simp add: calculatePrice_def calculateSurgeMultiplier_def calculatePoolDiscount_def Let_def)

theorem calculatePrice_formula_witness:
  "subtotal (calculatePrice default_config 0 ride_10km True 3) = 200
   \<and> pool_discount (calculatePrice default_config 0 ride_10km True 3) = 60
   \<and> final_price (calculatePrice default_config 0 ride_10km True 3) = 140"
proof -
  let ?b = "calculatePrice default_config 0 ride_10km True 3"
  note f = calculatePrice_formula [of default_config 0 ride_10km True 3]
  have s: "subtotal ?b = 200"
    using f ride_10km_distance by (simp add: default_config_fields)
  have m: "surge_multiplier ?b = 1" using f by (simp add: default_config_fields)
  have a: "surge_amount ?b = 0" using f by (simp add: m)
  have d: "pool_discount ?b = 60" using f by (simp add: s a default_config_fields)
  have "final_price ?b = toFixed2 (max 0 (subtotal ?b + surge_amount ?b - pool_discount ?b))"
    using f by simp
  then have "final_price ?b = 140" by (simp add: s a d toFixed2_def)
  with s d show ?thesis by simp
qed

text \<open>
  The claim as first stated has rounding at \<open>final_price\<close> only. For a ride of one
  metre the reported \<open>distance_km\<close> is 0 while the distance priced is 0.001 km.
\<close>

theorem rounding_only_final_price_counterexample:
  "distance_km (calculatePrice default_config 0 ride_1m False 1) = 0
   \<and> calculateDistance (pickup_latitude ride_1m) (pickup_longitude ride_1m)
        (dropoff_latitude ride_1m) (dropoff_longitude ride_1m) = 1 / 1000"
proof -
  have d: "calculateDistance (pickup_latitude ride_1m) (pickup_longitude ride_1m)
        (dropoff_latitude ride_1m) (dropoff_longitude ride_1m) = 1 / 1000"
    by (simp add: ride_1m_def meridian_request_def calculateDistance_km)
  show ?thesis by (simp add: calculatePrice_def Let_def toFixed2_def d)
qed

section \<open>The coarse location filter\<close>

lemma meridian_request_fields:
  "rr_id (meridian_request rid uid a b p l d st t) = rid"
  "user_id (meridian_request rid uid a b p l d st t) = uid"
  "pickup_latitude (meridian_request rid uid a b p l d st t) = km_to_lat a"
  "pickup_longitude (meridian_request rid uid a b p l d st t) = 0"
  "dropoff_latitude (meridian_request rid uid a b p l d st t) = km_to_lat b"
  "dropoff_longitude (meridian_request rid uid a b p l d st t) = 0"
  "passenger_count (meridian_request rid uid a b p l d st t) = p"
  "luggage_count (meridian_request rid uid a b p l d st t) = l"
  "max_detour_km (meridian_request rid uid a b p l d st t) = d"
  "rr_status (meridian_request rid uid a b p l d st t) = st"
  "requested_at (meridian_request rid uid a b p l d st t) = t"
  by (simp_all add: meridian_request_def)

text \<open>
  Claim C8 (coarse location filter), as amended. The filter lets a candidate pass
  exactly when it has no existing member, or some existing member's pickup is within
  the configured tolerance \<open>maxDetourToleranceKm\<close> of the request's pickup and that
  member's dropoff within twice that tolerance of the request's dropoff. The bound is
  the global configuration value, not the request's own \<open>max_detour_km\<close>.
\<close>

theorem location_filter_global_tolerance:
  "checkLocationCompatibility cfg newRequest existing \<longleftrightarrow>
     existing = [] \<or>
     (\<exists>e \<in> set existing.
        calculateDistance (pickup_latitude newRequest) (pickup_longitude newRequest)
          (pickup_latitude e) (pickup_longitude e) \<le> maxDetourToleranceKm cfg
      \<and> calculateDistance (dropoff_latitude newRequest) (dropoff_longitude newRequest)
          (dropoff_latitude e) (dropoff_longitude e) \<le> 2 * maxDetourToleranceKm cfg)"
  by (auto simp add: checkLocationCompatibility_def areLocationsCompatible_def Let_def
      list_ex_iff mult.commute)

theorem location_filter_global_tolerance_witness:
  "checkLocationCompatibility default_config strict_request [member_request]
   \<and> \<not> checkLocationCompatibility default_config far_request [member_request]
   \<and> checkLocationCompatibility default_config far_request []"
  using location_filter_global_tolerance [of default_config strict_request "[member_request]"]
    location_filter_global_tolerance [of default_config far_request "[member_request]"]
    location_filter_global_tolerance [of default_config far_request "[]"]
  by (simp add: strict_request_def member_request_def far_request_def meridian_request_fields
      calculateDistance_km default_config_fields)

text \<open>
  With the request's own tolerance as the bound the claim fails: a request that
  tolerates one kilometre passes the filter against a member picked up two kilometres
  away.
\<close>

theorem location_filter_request_tolerance_counterexample:
  "checkLocationCompatibility default_config strict_request [member_request]
   \<and> \<not> calculateDistance (pickup_latitude strict_request) (pickup_longitude strict_request)
          (pickup_latitude member_request) (pickup_longitude member_request)
        \<le> max_detour_km strict_request"
  by (simp add: checkLocationCompatibility_def areLocationsCompatible_def Let_def
      strict_request_def member_request_def meridian_request_fields
      calculateDistance_km default_config_fields)

section \<open>Route sequencing\<close>

subsection \<open>The scan for the nearest eligible stop\<close>

lemma nearest_scan_skip:
  "\<not> takeable mdist stops V U cur a \<Longrightarrow>
     nearest_scan mdist stops V U cur (a # idxs) best = nearest_scan mdist stops V U cur idxs best"
  by (auto simp add: takeable_def eligible_def)

lemma nearest_scan_take:
  "takeable mdist stops V U cur a \<Longrightarrow>
     \<exists>best'. nearest_scan mdist stops V U cur (a # idxs) best
                = nearest_scan mdist stops V U cur idxs best'
       \<and> (best' = best \<or> (\<exists>d. best' = Some (a, d))) \<and> best' \<noteq> None"
proof -
  assume t: "takeable mdist stops V U cur a"
  then obtain y where y: "mdist (lat cur) (lon cur) (lat (stops ! a)) (lon (stops ! a)) = Some y"
    by (auto simp add: takeable_def)
  from t have e: "a \<notin> V"
    "\<not> (stop_type (stops ! a) = Dropoff \<and> userId (stops ! a) \<notin> U)"
    by (auto simp add: takeable_def eligible_def)
  show ?thesis
  proof (cases "case best of None \<Rightarrow> True | Some (_, minDistance) \<Rightarrow> y < minDistance")
    case True
    with e y have "nearest_scan mdist stops V U cur (a # idxs) best
        = nearest_scan mdist stops V U cur idxs (Some (a, y))"
      by auto
    then show ?thesis by blast
  next
    case False
    then have "best \<noteq> None" by (cases best) auto
    moreover from False e y have "nearest_scan mdist stops V U cur (a # idxs) best
        = nearest_scan mdist stops V U cur idxs best"
      by auto
    ultimately show ?thesis by blast
  qed
qed

lemma nearest_scan_Some:
  "nearest_scan mdist stops V U cur idxs best = Some (i, d) \<Longrightarrow>
     best = Some (i, d) \<or> (i \<in> set idxs \<and> eligible stops V U i)"
proof (induction idxs arbitrary: best)
  case Nil
  then show ?case by simp
next
  case (Cons a idxs)
  show ?case
  proof (cases "takeable mdist stops V U cur a")
    case False
    with Cons.prems have "nearest_scan mdist stops V U cur idxs best = Some (i, d)"
      by (simp only: nearest_scan_skip [OF False])
    from Cons.IH [OF this] show ?thesis by auto
  next
    case True
    from nearest_scan_take [OF True, of idxs best] obtain best' where
      b: "nearest_scan mdist stops V U cur (a # idxs) best
            = nearest_scan mdist stops V U cur idxs best'"
        "best' = best \<or> (\<exists>d. best' = Some (a, d))"
      by blast
    with Cons.prems have "nearest_scan mdist stops V U cur idxs best' = Some (i, d)" by simp
    from Cons.IH [OF this] b(2) True show ?thesis by (auto simp add: takeable_def)
  qed
qed

lemma nearest_scan_None:
  "nearest_scan mdist stops V U cur idxs best = None \<Longrightarrow>
     best = None \<and> (\<forall>i \<in> set idxs. \<not> takeable mdist stops V U cur i)"
proof (induction idxs arbitrary: best)
  case Nil
  then show ?case by simp
next
  case (Cons a idxs)
  show ?case
  proof (cases "takeable mdist stops V U cur a")
    case False
    with Cons.prems have "nearest_scan mdist stops V U cur idxs best = None"
      by (simp only: nearest_scan_skip [OF False])
    from Cons.IH [OF this] False show ?thesis by auto
  next
    case True
    from nearest_scan_take [OF True, of idxs best] obtain best' where
      b: "nearest_scan mdist stops V U cur (a # idxs) best
            = nearest_scan mdist stops V U cur idxs best'"
        "best' \<noteq> None"
      by blast
    with Cons.prems have "nearest_scan mdist stops V U cur idxs best' = None" by simp
    from Cons.IH [OF this] b(2) show ?thesis by simp
  qed
qed

lemma unvisited_exists:
  assumes "distinct order" and "set order \<subseteq> {..<n}" and "length order < n"
  shows "\<exists>i < n. i \<notin> set order"
proof (rule ccontr)
  assume "\<not> (\<exists>i<n. i \<notin> set order)"
  then have "{..<n} \<subseteq> set order" by auto
  then have "card {..<n} \<le> card (set order)" by (intro card_mono) auto
  then show False using assms by (simp add: distinct_card)
qed

lemma all_visited:
  assumes "distinct order" and "set order \<subseteq> {..<n}" and "\<not> length order < n"
  shows "set order = {..<n}"
proof -
  have "card (set order) = length order" using assms(1) by (simp add: distinct_card)
  moreover have "card (set order) \<le> card {..<n}" using assms(2) by (intro card_mono) auto
  ultimately have "card (set order) = card {..<n}" using assms(3) by simp
  with assms(2) show ?thesis by (intro card_subset_eq) auto
qed

lemma find_unvisited:
  assumes "i < n" and "i \<notin> V"
  shows "\<exists>j. find (\<lambda>i. i \<notin> V) [0..<n] = Some j \<and> j < n \<and> j \<notin> V"
proof (cases "find (\<lambda>i. i \<notin> V) [0..<n]")
  case None
  then show ?thesis using assms by (auto simp add: find_None_iff)
next
  case (Some j)
  then show ?thesis by (auto simp add: find_Some_iff)
qed

lemma optimizeRoute_loop_permutes:
  assumes "distinct order" and "set order \<subseteq> {..<length stops}"
  shows "\<exists>order' fb'.
           optimizeRoute_loop mdist stops (map (nth stops) order) (set order) U fb
             = Inr (map (nth stops) (order @ order'), fb')
         \<and> distinct (order @ order') \<and> set (order @ order') = {..<length stops}"
  using assms
proof (induction "length stops - length order" arbitrary: order U fb)
  case 0
  then have "\<not> length order < length stops" by simp
  with 0 have "set order = {..<length stops}" by (intro all_visited) auto
  moreover have "optimizeRoute_loop mdist stops (map (nth stops) order) (set order) U fb
      = Inr (map (nth stops) order, fb)"
    using \<open>\<not> length order < length stops\<close> by (subst optimizeRoute_loop.simps) simp
  ultimately show ?case using 0 by (intro exI [of _ "[]"]) auto
next
  case (Suc k)
  then have lt: "length order < length stops" by simp
  from unvisited_exists [OF Suc.prems lt] obtain i0 where i0: "i0 < length stops" "i0 \<notin> set order"
    by auto
  let ?scan = "nearest_scan mdist stops (set order) U (last (map (nth stops) order)) [0..<length stops] None"
  have "\<exists>i fb1. i < length stops \<and> i \<notin> set order
          \<and> optimizeRoute_loop mdist stops (map (nth stops) order) (set order) U fb
            = optimizeRoute_loop mdist stops (map (nth stops) (order @ [i])) (set (order @ [i]))
                (mark_picked_up (stops ! i) U) fb1"
  proof (cases ?scan)
    case None
    from find_unvisited [OF i0] obtain j where
      j: "find (\<lambda>i. i \<notin> set order) [0..<length stops] = Some j" "j < length stops" "j \<notin> set order"
      by auto
    show ?thesis
      using lt None j
      by (intro exI [of _ j] exI [of _ "Suc fb"], subst optimizeRoute_loop.simps) simp
  next
    case (Some p)
    obtain i d where p: "p = (i, d)" by (cases p)
    from nearest_scan_Some [OF Some [unfolded p]] have "i < length stops" "i \<notin> set order"
      by (auto simp add: eligible_def)
    then show ?thesis
      using lt Some p
      by (intro exI [of _ i] exI [of _ fb], subst optimizeRoute_loop.simps) simp
  qed
  then obtain i fb1 where i: "i < length stops" "i \<notin> set order"
    and step: "optimizeRoute_loop mdist stops (map (nth stops) order) (set order) U fb
            = optimizeRoute_loop mdist stops (map (nth stops) (order @ [i])) (set (order @ [i]))
                (mark_picked_up (stops ! i) U) fb1"
    by blast
  have "k = length stops - length (order @ [i])" using Suc.hyps(2) by simp
  moreover have "distinct (order @ [i])" using Suc.prems i by simp
  moreover have "set (order @ [i]) \<subseteq> {..<length stops}" using Suc.prems i by simp
  ultimately obtain order' fb' where
    "optimizeRoute_loop mdist stops (map (nth stops) (order @ [i])) (set (order @ [i]))
        (mark_picked_up (stops ! i) U) fb1 = Inr (map (nth stops) ((order @ [i]) @ order'), fb')"
    "distinct ((order @ [i]) @ order')" "set ((order @ [i]) @ order') = {..<length stops}"
    using Suc.hyps(1) by blast
  then show ?case unfolding step by (intro exI [of _ "i # order'"] exI [of _ fb']) simp
qed

subsection \<open>The loop under the pickup-before-dropoff constraint\<close>

lemma picked_up_snoc:
  "picked_up stops (order @ [i]) = mark_picked_up (stops ! i) (picked_up stops order)"
  by (auto simp add: picked_up_def mark_picked_up_def)

lemma served_before_snoc:
  assumes "served_before stops order"
    and "stop_type (stops ! i) = Dropoff \<longrightarrow> userId (stops ! i) \<in> picked_up stops order"
  shows "served_before stops (order @ [i])"
  unfolding served_before_def
proof (intro allI impI)
  fix j
  assume j: "j < length (order @ [i])"
    and d: "stop_type (stops ! ((order @ [i]) ! j)) = Dropoff"
  show "\<exists>k<j. stop_type (stops ! ((order @ [i]) ! k)) = Pickup
          \<and> userId (stops ! ((order @ [i]) ! k)) = userId (stops ! ((order @ [i]) ! j))"
  proof (cases "j < length order")
    case True
    with d have "stop_type (stops ! (order ! j)) = Dropoff" by (simp add: nth_append)
    with assms(1) True obtain k where "k < j" "stop_type (stops ! (order ! k)) = Pickup"
      "userId (stops ! (order ! k)) = userId (stops ! (order ! j))"
      unfolding served_before_def by blast
    with True show ?thesis by (intro exI [of _ k]) (simp add: nth_append)
  next
    case False
    with j have jl: "j = length order" by simp
    with d have "stop_type (stops ! i) = Dropoff" by simp
    with assms(2) obtain p where p: "p \<in> set order" "stop_type (stops ! p) = Pickup"
      "userId (stops ! p) = userId (stops ! i)"
      unfolding picked_up_def by auto
    from p(1) obtain k where k: "k < length order" "order ! k = p"
      by (auto simp add: in_set_conv_nth)
    with p jl show ?thesis by (intro exI [of _ k]) (simp add: nth_append)
  qed
qed

lemma nan_free_nth:
  assumes "nan_free mdist stops" and "i < length stops" and "j < length stops"
  shows "mdist (lat (stops ! i)) (lon (stops ! i)) (lat (stops ! j)) (lon (stops ! j)) \<noteq> None"
  using assms by (auto simp add: nan_free_def list_all_length)

lemma nan_free_exact: "nan_free exact_distance stops"
  by (simp add: nan_free_def exact_distance_def list_all_iff)

lemma scan_finds_stop:
  assumes dropoff_has_pickup:
      "\<forall>j < length stops. stop_type (stops ! j) = Dropoff \<longrightarrow>
         (\<exists>i < length stops. stop_type (stops ! i) = Pickup \<and> userId (stops ! i) = userId (stops ! j))"
    and "i0 < length stops" and "i0 \<notin> set order"
    and numbers: "\<forall>i < length stops.
         mdist (lat cur) (lon cur) (lat (stops ! i)) (lon (stops ! i)) \<noteq> None"
  shows "nearest_scan mdist stops (set order) (picked_up stops order) cur [0..<length stops] None
           \<noteq> None"
proof
  assume "nearest_scan mdist stops (set order) (picked_up stops order) cur [0..<length stops] None
            = None"
  from nearest_scan_None [OF this] numbers
  have none: "\<forall>i < length stops. \<not> eligible stops (set order) (picked_up stops order) i"
    by (simp add: takeable_def)
  with assms(2,3) have d: "stop_type (stops ! i0) = Dropoff"
    and u: "userId (stops ! i0) \<notin> picked_up stops order"
    by (auto simp add: eligible_def)
  from dropoff_has_pickup assms(2) d obtain p where p: "p < length stops"
    "stop_type (stops ! p) = Pickup" "userId (stops ! p) = userId (stops ! i0)"
    by blast
  from u p(2,3) have "p \<notin> set order" by (auto simp add: picked_up_def)
  with p(2) have "eligible stops (set order) (picked_up stops order) p"
    by (simp add: eligible_def)
  with none p(1) show False by blast
qed

lemma optimizeRoute_loop_constraint:
  assumes dropoff_has_pickup:
      "\<forall>j < length stops. stop_type (stops ! j) = Dropoff \<longrightarrow>
         (\<exists>i < length stops. stop_type (stops ! i) = Pickup \<and> userId (stops ! i) = userId (stops ! j))"
    and numbers: "nan_free mdist stops"
    and "order \<noteq> []" and "distinct order" and "set order \<subseteq> {..<length stops}"
    and "served_before stops order"
  shows "\<exists>order'.
           optimizeRoute_loop mdist stops (map (nth stops) order) (set order)
               (picked_up stops order) fb
             = Inr (map (nth stops) (order @ order'), fb)
         \<and> distinct (order @ order') \<and> set (order @ order') = {..<length stops}
         \<and> served_before stops (order @ order')"
  using assms(3-)
proof (induction "length stops - length order" arbitrary: order)
  case 0
  then have nlt: "\<not> length order < length stops" by simp
  with 0 have "set order = {..<length stops}" by (intro all_visited) auto
  moreover have "optimizeRoute_loop mdist stops (map (nth stops) order) (set order)
      (picked_up stops order) fb = Inr (map (nth stops) order, fb)"
    using nlt by (subst optimizeRoute_loop.simps) simp
  ultimately show ?case using 0 by (intro exI [of _ "[]"]) auto
next
  case (Suc k)
  then have lt: "length order < length stops" by simp
  from unvisited_exists [OF Suc.prems(2,3) lt] obtain i0 where
    i0: "i0 < length stops" "i0 \<notin> set order"
    by auto
  let ?U = "picked_up stops order"
  let ?cur = "last (map (nth stops) order)"
  let ?scan = "nearest_scan mdist stops (set order) ?U ?cur [0..<length stops] None"
  have cur: "?cur = stops ! last order" using Suc.prems(1) by (simp add: last_map)
  have "last order \<in> set order" using Suc.prems(1) by simp
  then have lo: "last order < length stops" using Suc.prems(3) by auto
  have nums: "\<forall>i < length stops.
      mdist (lat ?cur) (lon ?cur) (lat (stops ! i)) (lon (stops ! i)) \<noteq> None"
    unfolding cur using nan_free_nth [OF numbers lo] by blast
  from scan_finds_stop [where mdist = mdist and cur = ?cur, OF dropoff_has_pickup i0 nums]
  obtain i d where scan: "?scan = Some (i, d)"
    by (cases ?scan) auto
  from nearest_scan_Some [OF scan] have i: "i < length stops" "eligible stops (set order) ?U i"
    by auto
  then have inew: "i \<notin> set order"
    and ok: "stop_type (stops ! i) = Dropoff \<longrightarrow> userId (stops ! i) \<in> ?U"
    by (auto simp add: eligible_def)
  have step: "optimizeRoute_loop mdist stops (map (nth stops) order) (set order) ?U fb
      = optimizeRoute_loop mdist stops (map (nth stops) (order @ [i])) (set (order @ [i]))
          (picked_up stops (order @ [i])) fb"
    using lt scan by (subst optimizeRoute_loop.simps) (simp add: picked_up_snoc)
  have "k = length stops - length (order @ [i])" using Suc.hyps(2) by simp
  moreover have "order @ [i] \<noteq> []" by simp
  moreover have "distinct (order @ [i])" using Suc.prems inew by simp
  moreover have "set (order @ [i]) \<subseteq> {..<length stops}" using Suc.prems i by simp
  moreover have "served_before stops (order @ [i])"
    using Suc.prems(4) ok by (rule served_before_snoc)
  ultimately obtain order' where
    "optimizeRoute_loop mdist stops (map (nth stops) (order @ [i])) (set (order @ [i]))
        (picked_up stops (order @ [i])) fb = Inr (map (nth stops) ((order @ [i]) @ order'), fb)"
    "distinct ((order @ [i]) @ order')" "set ((order @ [i]) @ order') = {..<length stops}"
    "served_before stops ((order @ [i]) @ order')"
    using Suc.hyps(1) by blast
  then show ?case unfolding step by (intro exI [of _ "i # order'"]) simp
qed

lemma mset_map_nth_all:
  assumes "distinct order" and "set order = {..<length xs}"
  shows "mset (map (nth xs) order) = mset xs"
proof -
  have "set order = set [0..<length xs]" using assms(2) by (simp add: lessThan_atLeast0)
  moreover have "distinct [0..<length xs]" by simp
  ultimately have "mset order = mset [0..<length xs]"
    using assms(1) set_eq_iff_mset_eq_distinct by blast
  then have "image_mset (nth xs) (mset order) = image_mset (nth xs) (mset [0..<length xs])"
    by simp
  then have "mset (map (nth xs) order) = mset (map (nth xs) [0..<length xs])" by simp
  then show ?thesis by (simp add: map_nth)
qed

lemma one_stop_each_unique_pickup:
  assumes "one_stop_each stops" and "i < length stops" and "j < length stops"
    and "stop_type (stops ! i) = Pickup" and "stop_type (stops ! j) = Pickup"
    and "userId (stops ! i) = userId (stops ! j)"
  shows "i = j"
proof -
  let ?P = "\<lambda>s. userId s = userId (stops ! i) \<and> stop_type s = Pickup"
  have "userId (stops ! i) \<in> set (map userId stops)" using assms(2) by simp
  with assms(1) have "length (filter ?P stops) = 1" unfolding one_stop_each_def by blast
  then have c: "card {k. k < length stops \<and> ?P (stops ! k)} = 1"
    by (simp add: length_filter_conv_card)
  let ?S = "{k. k < length stops \<and> ?P (stops ! k)}"
  have i: "i \<in> ?S" using assms by simp
  have j: "j \<in> ?S" using assms by simp
  from c obtain x where x: "?S = {x}" by (rule card_1_singletonE)
  from i have "i = x" unfolding x by blast
  moreover from j have "j = x" unfolding x by blast
  ultimately show ?thesis by simp
qed

lemma one_stop_each_dropoff_has_pickup:
  assumes "one_stop_each stops"
  shows "\<forall>j < length stops. stop_type (stops ! j) = Dropoff \<longrightarrow>
         (\<exists>i < length stops. stop_type (stops ! i) = Pickup \<and> userId (stops ! i) = userId (stops ! j))"
proof (intro allI impI)
  fix j assume j: "j < length stops"
  let ?P = "\<lambda>s. userId s = userId (stops ! j) \<and> stop_type s = Pickup"
  have "userId (stops ! j) \<in> set (map userId stops)" using j by simp
  with assms have "length (filter ?P stops) = 1" unfolding one_stop_each_def by blast
  then have "filter ?P stops \<noteq> []" by auto
  then obtain s where "s \<in> set stops" "?P s" by (auto simp add: filter_empty_conv)
  then obtain i where "i < length stops" "stops ! i = s" by (auto simp add: in_set_conv_nth)
  with \<open>?P s\<close> show "\<exists>i < length stops. stop_type (stops ! i) = Pickup
      \<and> userId (stops ! i) = userId (stops ! j)" by auto
qed

text \<open>
  As long as no distance between two stops is NaN, and so in particular on a machine
  that does not round, the sequencer keeps the constraint: for a stop list with exactly
  one pickup and one dropoff stop per rider whose first element is a pickup it returns
  without error, never takes the fallback branch, and the route is a permutation of
  the stops in which the pickup of every rider stands before that rider's dropoff.
\<close>

lemma optimizeRoute_keeps_constraint_nan_free:
  assumes "one_stop_each stops" and "stops \<noteq> [] \<longrightarrow> stop_type (hd stops) = Pickup"
    and numbers: "nan_free mdist stops"
  shows "\<exists>r. optimizeRoute_run mdist stops = Inr (r, 0) \<and> optimizeRoute mdist stops = Inr r
           \<and> mset r = mset stops \<and> pickup_before_dropoff r"
proof (cases "length stops \<le> 1")
  case True
  then have run: "optimizeRoute_run mdist stops = Inr (stops, 0)" by (simp add: optimizeRoute_run_def)
  have "pickup_before_dropoff stops"
    unfolding pickup_before_dropoff_def using True
    by (auto simp add: less_Suc_eq_0_disj le_Suc_eq)
  with run show ?thesis by (simp add: optimizeRoute_def)
next
  case False
  then have n: "0 < length stops" "stops \<noteq> []" by auto
  with assms(2) have first: "stop_type (stops ! 0) = Pickup" by (simp add: hd_conv_nth)
  have init: "optimizeRoute_run mdist stops =
      optimizeRoute_loop mdist stops (map (nth stops) [0]) (set [0]) (picked_up stops [0]) 0"
    using False first by (simp add: optimizeRoute_run_def picked_up_def mark_picked_up_def)
  have sb: "served_before stops [0]" using first by (simp add: served_before_def)
  from optimizeRoute_loop_constraint
    [OF one_stop_each_dropoff_has_pickup [OF assms(1)] numbers _ _ _ sb, of 0]
  obtain order' where
    res: "optimizeRoute_loop mdist stops (map (nth stops) [0]) (set [0]) (picked_up stops [0]) 0
            = Inr (map (nth stops) ([0] @ order'), 0)"
    and dist: "distinct ([0] @ order')" and all: "set ([0] @ order') = {..<length stops}"
    and sv: "served_before stops ([0] @ order')"
    using n by auto
  let ?order = "[0] @ order'"
  let ?r = "map (nth stops) ?order"
  have run: "optimizeRoute_run mdist stops = Inr (?r, 0)" using init res by simp
  have perm: "mset ?r = mset stops" using dist all by (rule mset_map_nth_all)
  have "pickup_before_dropoff ?r"
    unfolding pickup_before_dropoff_def
  proof (intro allI impI)
    fix i j
    assume i: "i < length ?r" and j: "j < length ?r"
      and h: "stop_type (?r ! i) = Pickup \<and> stop_type (?r ! j) = Dropoff
                \<and> userId (?r ! i) = userId (?r ! j)"
    have il: "i < length ?order" and jl: "j < length ?order" using i j by simp_all
    have ri: "?r ! i = stops ! (?order ! i)" and rj: "?r ! j = stops ! (?order ! j)"
      using il jl by (simp_all only: nth_map)
    from sv jl h obtain k where k: "k < j" "stop_type (stops ! (?order ! k)) = Pickup"
      "userId (stops ! (?order ! k)) = userId (stops ! (?order ! j))"
      unfolding served_before_def rj by blast
    have kl: "k < length ?order" using k(1) jl by simp
    have bi: "?order ! i < length stops" using all il nth_mem [OF il] by blast
    have bk: "?order ! k < length stops" using all nth_mem [OF kl] by blast
    have "?order ! i = ?order ! k"
      using one_stop_each_unique_pickup [OF assms(1) bi bk] h k(2,3) unfolding ri rj by simp
    with dist il kl have "i = k" by (simp only: nth_eq_iff_index_eq)
    with k(1) show "i < j" by simp
  qed
  with run perm show ?thesis by (auto simp add: optimizeRoute_def)
qed

lemma optimizeRoute_exact_keeps_constraint:
  assumes "one_stop_each stops" and "stops \<noteq> [] \<longrightarrow> stop_type (hd stops) = Pickup"
  shows "\<exists>r. optimizeRoute_run exact_distance stops = Inr (r, 0)
           \<and> optimizeRoute exact_distance stops = Inr r
           \<and> mset r = mset stops \<and> pickup_before_dropoff r"
  using assms nan_free_exact by (rule optimizeRoute_keeps_constraint_nan_free)

lemma example_stops_eq:
  "example_stops = [pickup_stop member_request, dropoff_stop member_request,
     pickup_stop strict_request, dropoff_stop strict_request]"
  by (simp add: example_stops_def build_stops_def)

lemma stop_fields:
  "stop_type (pickup_stop r) = Pickup" "stop_type (dropoff_stop r) = Dropoff"
  "userId (pickup_stop r) = user_id r" "userId (dropoff_stop r) = user_id r"
  "lat (pickup_stop r) = pickup_latitude r" "lon (pickup_stop r) = pickup_longitude r"
  "lat (dropoff_stop r) = dropoff_latitude r" "lon (dropoff_stop r) = dropoff_longitude r"
  "stop_id (pickup_stop r) = rr_id r @ ''-pickup''"
  "stop_id (dropoff_stop r) = rr_id r @ ''-dropoff''"
  by (simp_all add: pickup_stop_def dropoff_stop_def)

lemma optimizeRoute_exact_keeps_constraint_example:
  "one_stop_each example_stops \<and> stop_type (hd example_stops) = Pickup
   \<and> (\<exists>r. optimizeRoute_run exact_distance example_stops = Inr (r, 0)
           \<and> optimizeRoute exact_distance example_stops = Inr r
           \<and> mset r = mset example_stops \<and> pickup_before_dropoff r)"
proof -
  have a: "one_stop_each example_stops"
    by (simp add: one_stop_each_def example_stops_eq stop_fields strict_request_def
        member_request_def meridian_request_fields)
  have b: "stop_type (hd example_stops) = Pickup" by (simp add: example_stops_eq stop_fields)
  from optimizeRoute_exact_keeps_constraint [of example_stops] a b show ?thesis by simp
qed






section \<open>Matching\<close>

subsection \<open>The route analysis never finds a request's stops\<close>

text \<open>
  The sequencer returns a permutation of any stop list, without error. The stops built
  for the analysis carry the ids \<open>id-pickup\<close> and \<open>id-dropoff\<close>, and the analysis looks
  for stops whose id equals a request's id: no id ends both in \<open>p\<close> and in \<open>f\<close>, so for
  the first request examined one of the two positions stays at \<open>-1\<close> and the analysis
  reports an invalid route. The loop over the candidates therefore collects nothing.
\<close>

lemma optimizeRoute_total:
  "\<exists>r. optimizeRoute mdist stops = Inr r \<and> mset r = mset stops"
proof (cases "length stops \<le> 1")
  case True
  then show ?thesis by (simp add: optimizeRoute_def optimizeRoute_run_def)
next
  case False
  then have n: "0 < length stops" by (cases stops) auto
  have init: "optimizeRoute_run mdist stops =
      optimizeRoute_loop mdist stops (map (nth stops) [0]) (set [0]) (mark_picked_up (stops ! 0) {}) 0"
    using False by (simp add: optimizeRoute_run_def)
  from optimizeRoute_loop_permutes
    [where order = "[0]" and stops = stops and mdist = mdist
       and U = "mark_picked_up (stops ! 0) {}" and fb = 0]
  obtain order' fb' where
    res: "optimizeRoute_loop mdist stops (map (nth stops) [0]) (set [0]) (mark_picked_up (stops ! 0) {}) 0
            = Inr (map (nth stops) ([0] @ order'), fb')"
    and dist: "distinct ([0] @ order')" and all: "set ([0] @ order') = {..<length stops}"
    using n by auto
  have "mset (map (nth stops) ([0] @ order')) = mset stops"
    using dist all by (rule mset_map_nth_all)
  with init res show ?thesis by (simp add: optimizeRoute_def)
qed

lemma find_portion_no_pickup:
  assumes "\<forall>i \<in> set idxs. stop_id (r ! i) = x \<longrightarrow> stop_type (r ! i) \<noteq> Pickup"
  shows "fst (find_portion r x idxs (p, d)) = p"
  using assms by (induction idxs arbitrary: d) auto

lemma find_portion_no_dropoff:
  assumes "\<forall>i \<in> set idxs. stop_id (r ! i) = x \<longrightarrow> stop_type (r ! i) \<noteq> Dropoff"
  shows "snd (find_portion r x idxs (p, d)) = d"
  using assms by (induction idxs arbitrary: p) auto

lemma build_stops_ids:
  assumes "s \<in> set (build_stops newRequest existing)"
  shows "(stop_type s = Pickup \<and> last (stop_id s) = CHR ''p'')
       \<or> (stop_type s = Dropoff \<and> last (stop_id s) = CHR ''f'')"
  using assms by (auto simp add: build_stops_def pickup_stop_def dropoff_stop_def)

lemma portion_never_found:
  assumes "set r \<subseteq> set (build_stops newRequest existing)"
  shows "fst (find_portion r x [0..<length r] (- 1, - 1)) = - 1
       \<or> snd (find_portion r x [0..<length r] (- 1, - 1)) = - 1"
proof (cases "last x = CHR ''p''")
  case True
  have "\<forall>i \<in> set [0..<length r]. stop_id (r ! i) = x \<longrightarrow> stop_type (r ! i) \<noteq> Dropoff"
  proof (intro ballI impI)
    fix i assume "i \<in> set [0..<length r]" and e: "stop_id (r ! i) = x"
    then have "r ! i \<in> set (build_stops newRequest existing)" using assms by auto
    from build_stops_ids [OF this] True e show "stop_type (r ! i) \<noteq> Dropoff" by auto
  qed
  from find_portion_no_dropoff [OF this] show ?thesis by simp
next
  case False
  have "\<forall>i \<in> set [0..<length r]. stop_id (r ! i) = x \<longrightarrow> stop_type (r ! i) \<noteq> Pickup"
  proof (intro ballI impI)
    fix i assume "i \<in> set [0..<length r]" and e: "stop_id (r ! i) = x"
    then have "r ! i \<in> set (build_stops newRequest existing)" using assms by auto
    from build_stops_ids [OF this] False e show "stop_type (r ! i) \<noteq> Pickup" by auto
  qed
  from find_portion_no_pickup [OF this] show ?thesis by simp
qed

lemma analyze_loop_invalid:
  assumes "set r \<subseteq> set (build_stops newRequest existing)"
  shows "analyze_loop cfg r totalKm (req # rest) dets = invalid_analysis"
proof -
  obtain p d where pd: "find_portion r (rr_id req) [0..<length r] (- 1, - 1) = (p, d)"
    by (cases "find_portion r (rr_id req) [0..<length r] (- 1, - 1)")
  from portion_never_found [OF assms, of "rr_id req"] pd have "p = - 1 \<or> d = - 1" by simp
  then show ?thesis by (auto simp add: pd Let_def)
qed

lemma analyzeRouteWithNewMember_invalid:
  "analyzeRouteWithNewMember mdist cfg newRequest existing members = Inr invalid_analysis"
proof -
  obtain r where r: "optimizeRoute mdist (build_stops newRequest existing) = Inr r"
    and m: "mset r = mset (build_stops newRequest existing)"
    using optimizeRoute_total by blast
  from m have "set r = set (build_stops newRequest existing)" by (rule mset_eq_setD)
  then have sub: "set r \<subseteq> set (build_stops newRequest existing)" by simp
  obtain req rest where l: "existing @ [newRequest] = req # rest"
    by (cases "existing @ [newRequest]") auto
  show ?thesis
    unfolding analyzeRouteWithNewMember_def r l
    by (simp add: analyze_loop_invalid [OF sub] del: analyze_loop.simps)
qed

lemma findBestMatch_loop_keeps:
  "findBestMatch_loop mdist cfg request candidates acc = Inr acc"
  by (induction candidates)
    (simp_all add: analyzeRouteWithNewMember_invalid invalid_analysis_def)

lemma findBestMatch_never_matches:
  "findBestMatch mdist cfg request candidates = Inr None"
  by (simp add: findBestMatch_def findBestMatch_loop_keeps)

lemma scenario_route:
  "optimizeRoute exact_distance (build_stops new_request [member_request]) =
     Inr [pickup_stop member_request, pickup_stop new_request,
          dropoff_stop member_request, dropoff_stop new_request]"
  by (simp add: optimizeRoute_def optimizeRoute_run_def build_stops_def
      optimizeRoute_loop.simps mark_picked_up_def stop_fields new_request_def exact_distance_def
      member_request_def meridian_request_fields calculateDistance_km Let_def)

text \<open>
  Claim C1 (matching scenario). The request tolerates 5 km; the candidate pool holds 3
  of 4 passengers; its member is picked up 2 km from the request's pickup and dropped
  off 3 km from its dropoff; capacity and location filters pass; the sequenced route is
  member pickup, request pickup, member dropoff, request dropoff, on which both riders
  have detour 0. The claim expects the pool to be returned; the code returns no match,
  whatever the machine's distance function.
\<close>

theorem matching_scenario_finds_no_match:
  "current_passenger_count (pool scenario_candidate) = 3
   \<and> max_passengers (pool scenario_candidate) = 4
   \<and> max_detour_km new_request = 5
   \<and> existingRequests scenario_candidate = [member_request]
   \<and> calculateDistance (pickup_latitude member_request) (pickup_longitude member_request)
        (pickup_latitude new_request) (pickup_longitude new_request) = 2
   \<and> calculateDistance (dropoff_latitude member_request) (dropoff_longitude member_request)
        (dropoff_latitude new_request) (dropoff_longitude new_request) = 3
   \<and> checkCapacityConstraints (pool scenario_candidate) new_request
   \<and> checkLocationCompatibility default_config new_request [member_request]
   \<and> optimizeRoute exact_distance (build_stops new_request [member_request]) =
       Inr [pickup_stop member_request, pickup_stop new_request,
            dropoff_stop member_request, dropoff_stop new_request]
   \<and> calculateTotalDistance [pickup_stop member_request, pickup_stop new_request,
          dropoff_stop member_request]
        - calculateDistance (pickup_latitude member_request) (pickup_longitude member_request)
            (dropoff_latitude member_request) (dropoff_longitude member_request) = 0
   \<and> calculateTotalDistance [pickup_stop new_request, dropoff_stop member_request,
          dropoff_stop new_request]
        - calculateDistance (pickup_latitude new_request) (pickup_longitude new_request)
            (dropoff_latitude new_request) (dropoff_longitude new_request) = 0
   \<and> findBestMatch mdist default_config new_request [scenario_candidate] = Inr None"
  unfolding scenario_route findBestMatch_never_matches
  by (simp add: scenario_candidate_def checkCapacityConstraints_def
      checkLocationCompatibility_def areLocationsCompatible_def calculateTotalDistance_def
      stop_fields new_request_def member_request_def meridian_request_fields
      calculateDistance_km default_config_fields Let_def)

subsection \<open>Batch pooling\<close>

text \<open>
  No iteration of the outer loop touches the array that is returned: the groups are
  formed and their sizes logged, and the result is the empty array it started as.
\<close>

lemma generate_loop_pools:
  "fst (generate_loop cfg sortedRequests todo (pools, assigned, logged)) = pools"
proof (induction todo arbitrary: assigned logged)
  case Nil
  then show ?case by simp
next
  case (Cons request rest)
  show ?case
  proof (cases "rr_id request \<in> assigned")
    case True
    then show ?thesis using Cons.IH by simp
  next
    case False
    obtain compatible assigned' where
      a: "absorb_loop cfg sortedRequests ([request], insert (rr_id request) assigned)
            = (compatible, assigned')"
      by (cases "absorb_loop cfg sortedRequests ([request], insert (rr_id request) assigned)")
    show ?thesis using False a Cons.IH by simp
  qed
qed

lemma generateOptimalPools_empty:
  "generateOptimalPools cfg requests = []"
  by (simp add: generateOptimalPools_def generateOptimalPools_run_def Let_def generate_loop_pools)

lemma batch_sorted: "sort_key requested_at batch_requests = batch_requests"
  by (simp add: batch_requests_def meridian_request_fields)

lemma batch_compatible:
  "list_all (\<lambda>a. list_all (\<lambda>b. checkLocationCompatibility default_config a [b]) batch_requests)
     batch_requests"
  by (simp add: batch_requests_def checkLocationCompatibility_def areLocationsCompatible_def
      meridian_request_fields calculateDistance_km default_config_fields Let_def)

lemma batch_logged:
  "generateOptimalPools_logged default_config batch_requests = [4, 1]"
  unfolding generateOptimalPools_logged_def generateOptimalPools_run_def Let_def batch_sorted
  by (simp add: batch_requests_def checkLocationCompatibility_def areLocationsCompatible_def
      meridian_request_fields calculateDistance_km default_config_fields Let_def)

text \<open>
  Claim C5 (batch pooling). For five pending, pairwise compatible requests and a pool
  cap of 4, the claim expects pools that cover all five requests. The code forms a
  group of four and a group of one, logs their sizes, and returns no pool at all.
\<close>

theorem batch_pooling_returns_nothing:
  "length batch_requests = 5
   \<and> list_all (\<lambda>a. list_all (\<lambda>b. checkLocationCompatibility default_config a [b]) batch_requests)
        batch_requests
   \<and> maxPassengersPerPool default_config = 4
   \<and> generateOptimalPools_logged default_config batch_requests = [4, 1]
   \<and> generateOptimalPools default_config batch_requests = []"
  unfolding generateOptimalPools_empty batch_logged
  using batch_compatible by (simp add: batch_requests_def default_config_fields)

section \<open>Pool bookkeeping\<close>

subsection \<open>Operations that recalculate\<close>

text \<open>
  \<^verbatim>\<open>recalculatePoolCapacityInternal\<close> sums over the requests whose id is among the pool's
  membership rows; as long as no request occurs twice in the pool this is the sum over
  the members, so the pool's counters are consistent afterwards. \<^verbatim>\<open>addMemberToPool\<close>,
  \<^verbatim>\<open>createPool\<close> and \<^verbatim>\<open>removeMemberFromPool\<close> all end with it.
\<close>

lemma sum_list_filter_disj:
  fixes f :: "'a \<Rightarrow> int"
  assumes "\<And>x. \<not> (P x \<and> Q x)"
  shows "sum_list (map f (filter (\<lambda>x. P x \<or> Q x) xs))
       = sum_list (map f (filter P xs)) + sum_list (map f (filter Q xs))"
  using assms by (induction xs) auto

lemma sum_over_member_ids:
  fixes f :: "RideRequest \<Rightarrow> int"
  assumes "distinct ids"
  shows "sum_list (map f (filter (\<lambda>r. rr_id r \<in> set ids) reqs))
       = sum_list (map f (concat (map (\<lambda>i. filter (\<lambda>r. rr_id r = i) reqs) ids)))"
  using assms
proof (induction ids)
  case Nil
  then show ?case by simp
next
  case (Cons i rest)
  then have d: "\<And>r. \<not> (rr_id r = i \<and> rr_id r \<in> set rest)" by auto
  have "filter (\<lambda>r. rr_id r \<in> set (i # rest)) reqs
      = filter (\<lambda>r. rr_id r = i \<or> rr_id r \<in> set rest) reqs"
    by (rule filter_cong) auto
  then show ?case
    using sum_list_filter_disj [where f = f and xs = reqs and P = "\<lambda>r. rr_id r = i"
        and Q = "\<lambda>r. rr_id r \<in> set rest", OF d] Cons by simp
qed

lemma pool_member_requests_ids:
  "pool_member_requests s poolId =
     concat (map (\<lambda>i. filter (\<lambda>r. rr_id r = i) (ride_requests s))
               (map ride_request_id (filter (\<lambda>m. pool_id m = poolId) (pool_members s))))"
  by (simp add: pool_member_requests_def comp_def)

lemma pool_member_requests_recalculated:
  "pool_member_requests (recalculatePoolCapacityInternal s poolId) q = pool_member_requests s q"
  by (simp add: pool_member_requests_def recalculatePoolCapacityInternal_def
      update_pool_counts_def Let_def)

lemma recalculated_pools:
  fixes s :: Database and poolId :: string
  defines "ids \<equiv> map ride_request_id (filter (\<lambda>m. pool_id m = poolId) (pool_members s))"
  shows "ride_pools (recalculatePoolCapacityInternal s poolId) =
     map (\<lambda>p. if rp_id p = poolId
               then p\<lparr> current_passenger_count :=
                         sum_list (map passenger_count
                           (filter (\<lambda>r. rr_id r \<in> set ids) (ride_requests s))),
                       current_luggage_count :=
                         sum_list (map luggage_count
                           (filter (\<lambda>r. rr_id r \<in> set ids) (ride_requests s))) \<rparr>
               else p) (ride_pools s)"
proof -
  have r: "recalculatePoolCapacityInternal s poolId =
      (if length ids = 0 then update_pool_counts poolId 0 0 s
       else update_pool_counts poolId
              (sum_list (map passenger_count (filter (\<lambda>r. rr_id r \<in> set ids) (ride_requests s))))
              (sum_list (map luggage_count (filter (\<lambda>r. rr_id r \<in> set ids) (ride_requests s))))
              s)"
    unfolding recalculatePoolCapacityInternal_def Let_def ids_def by (rule refl)
  show ?thesis
  proof (cases "ids = []")
    case True
    then show ?thesis unfolding r by (simp add: update_pool_counts_def)
  next
    case False
    then show ?thesis unfolding r by (simp add: update_pool_counts_def)
  qed
qed

lemma recalculate_makes_consistent:
  assumes "members_unique (pool_members s) poolId"
  shows "pool_consistent (recalculatePoolCapacityInternal s poolId) poolId"
proof -
  let ?ids = "map ride_request_id (filter (\<lambda>m. pool_id m = poolId) (pool_members s))"
  have d: "distinct ?ids" using assms by (simp add: members_unique_def)
  have sums: "\<And>f :: RideRequest \<Rightarrow> int.
      sum_list (map f (filter (\<lambda>r. rr_id r \<in> set ?ids) (ride_requests s)))
        = sum_list (map f (pool_member_requests s poolId))"
    unfolding pool_member_requests_ids by (rule sum_over_member_ids [OF d])
  show ?thesis
    unfolding pool_consistent_def pool_member_requests_recalculated recalculated_pools sums
      list.pred_map comp_def
    by (simp add: list_all_iff)
qed

lemma addMemberToPoolInternal_keeps_unique:
  assumes "addMemberToPoolInternal cfg df s poolId rid = Inr s1"
    and "members_unique (pool_members s) q"
  shows "members_unique (pool_members s1) q"
proof -
  from assms(1) have none: "filter (\<lambda>m. ride_request_id m = rid) (pool_members s) = []"
    by (auto simp add: addMemberToPoolInternal_def Let_def split: list.splits if_splits)
  then have fresh: "rid \<notin> ride_request_id ` set (pool_members s)"
    by (auto simp add: filter_empty_conv)
  from assms(1) obtain row where row: "pool_members s1 = pool_members s @ [row]"
    and rr: "ride_request_id row = rid"
    by (auto simp add: addMemberToPoolInternal_def Let_def split: list.splits if_splits)
  show ?thesis using assms(2) fresh rr by (auto simp add: members_unique_def row)
qed

lemma add_members_keeps_unique:
  assumes "add_members cfg df s poolId ids = Inr s2"
    and "members_unique (pool_members s) q"
  shows "members_unique (pool_members s2) q"
  using assms
proof (induction ids arbitrary: s)
  case Nil
  then show ?case by simp
next
  case (Cons rid rest)
  from Cons.prems(1) obtain s1 where
    a: "addMemberToPoolInternal cfg df s poolId rid = Inr s1"
    and b: "add_members cfg df s1 poolId rest = Inr s2"
    by (auto split: sum.splits)
  from addMemberToPoolInternal_keeps_unique [OF a Cons.prems(2)] Cons.IH [OF b]
  show ?case by blast
qed

lemma delete_keeps_unique:
  assumes "members_unique members q"
  shows "members_unique (filter P members) q"
proof -
  have e: "filter (\<lambda>m. pool_id m = q) (filter P members)
      = filter P (filter (\<lambda>m. pool_id m = q) members)"
    by (simp add: conj_commute)
  show ?thesis
    unfolding members_unique_def e using assms [unfolded members_unique_def]
    by (rule distinct_map_filter)
qed

lemma status_change_keeps_consistent:
  assumes "pool_consistent s poolId"
  shows "pool_consistent (s\<lparr> ride_pools :=
      map (\<lambda>p. if rp_id p = q then p\<lparr> rp_status := st \<rparr> else p) (ride_pools s) \<rparr>) poolId"
  using assms
  by (auto simp add: pool_consistent_def pool_member_requests_def list_all_iff)

lemma recalculating_mutations_consistent:
  assumes "members_unique (pool_members s) poolId"
  shows "snd (addMemberToPool cfg df poolId rid s) = Inr () \<Longrightarrow>
           pool_consistent (fst (addMemberToPool cfg df poolId rid s)) poolId"
    and "snd (createPool cfg df poolId code ids s) = Inr p \<Longrightarrow>
           pool_consistent (fst (createPool cfg df poolId code ids s)) poolId"
    and "pool_consistent (fst (removeMemberFromPool poolId rid s)) poolId"
proof -
  assume "snd (addMemberToPool cfg df poolId rid s) = Inr ()"
  then obtain s1 where a: "addMemberToPoolInternal cfg df s poolId rid = Inr s1"
    and f: "fst (addMemberToPool cfg df poolId rid s) = recalculatePoolCapacityInternal s1 poolId"
    by (auto simp add: addMemberToPool_def transaction_def split: sum.splits)
  from addMemberToPoolInternal_keeps_unique [OF a assms]
  show "pool_consistent (fst (addMemberToPool cfg df poolId rid s)) poolId"
    unfolding f by (rule recalculate_makes_consistent)
next
  assume ok: "snd (createPool cfg df poolId code ids s) = Inr p"
  let ?s1 = "s\<lparr> ride_pools := ride_pools s @
      [\<lparr> rp_id = poolId, pool_code = code, rp_status = Pool_forming,
         current_passenger_count = 0, current_luggage_count = 0,
         max_passengers = maxPassengersPerPool cfg, max_luggage = maxLuggageCapacity cfg \<rparr>] \<rparr>"
  from ok obtain s2 where a: "add_members cfg df ?s1 poolId ids = Inr s2"
    and f: "fst (createPool cfg df poolId code ids s) = recalculatePoolCapacityInternal s2 poolId"
    by (auto simp add: createPool_def transaction_def Let_def split: sum.splits if_splits)
  have "members_unique (pool_members ?s1) poolId" using assms by simp
  from add_members_keeps_unique [OF a this]
  show "pool_consistent (fst (createPool cfg df poolId code ids s)) poolId"
    unfolding f by (rule recalculate_makes_consistent)
next
  let ?s1 = "s\<lparr> pool_members :=
      filter (\<lambda>m. \<not> (pool_id m = poolId \<and> ride_request_id m = rid)) (pool_members s) \<rparr>"
  let ?s2 = "recalculatePoolCapacityInternal ?s1 poolId"
  have "members_unique (pool_members ?s1) poolId"
    using delete_keeps_unique [OF assms] by simp
  then have c: "pool_consistent ?s2 poolId" by (rule recalculate_makes_consistent)
  have "pool_consistent (?s2\<lparr> ride_pools :=
      map (\<lambda>p. if rp_id p = poolId then p\<lparr> rp_status := Pool_cancelled \<rparr> else p)
        (ride_pools ?s2) \<rparr>) poolId"
    using c by (rule status_change_keeps_consistent)
  with c show "pool_consistent (fst (removeMemberFromPool poolId rid s)) poolId"
    by (simp add: removeMemberFromPool_def transaction_def Let_def)
qed

subsection \<open>Cancellation\<close>

text \<open>
  Claim C3 (cancelling a terminal request), as amended. Cancelling a request whose
  status is already cancelled or completed raises an error, ``Ride request already
  cancelled'' or ``Cannot cancel completed ride'', and the transaction leaves the
  database as it was.
\<close>

theorem cancel_terminal_raises:
  assumes "filter (\<lambda>r. rr_id r = rid) (ride_requests s) = r # others"
    and "rr_status r = Ride_cancelled \<or> rr_status r = Ride_completed"
  shows "cancelRideRequest rid s =
           (s, Inl (if rr_status r = Ride_cancelled then RideRequestAlreadyCancelled
                    else CannotCancelCompletedRide))"
  using assms by (auto simp add: cancelRideRequest_def transaction_def)

theorem cancel_terminal_raises_witness:
  "cancelRideRequest ''r4'' db_terminal = (db_terminal, Inl RideRequestAlreadyCancelled)"
proof -
  have f: "filter (\<lambda>r. rr_id r = ''r4'') (ride_requests db_terminal) =
      [meridian_request ''r4'' ''u4'' 0 10 1 0 5 Ride_cancelled 3]"
    by (simp add: db_terminal_def meridian_request_fields)
  from cancel_terminal_raises [OF f] show ?thesis by (simp add: meridian_request_fields)
qed

text \<open>
  The claim as first stated has the call succeed as a no-op; on a completed request
  the call ends in an error.
\<close>

theorem cancel_terminal_succeeds_counterexample:
  "cancelRideRequest ''r5'' db_terminal = (db_terminal, Inl CannotCancelCompletedRide)"
  by (simp add: cancelRideRequest_def transaction_def db_terminal_def meridian_request_fields)

lemma db_example_fields:
  "ride_requests db_example = [member_request, new_request, far_request]"
  "ride_pools db_example = [pool scenario_candidate]"
  "pool_members db_example = existingMembers scenario_candidate"
  "pricing_history db_example = []"
  by (simp_all add: db_example_def)

lemma example_request_fields:
  "rr_id member_request = ''r1''" "rr_id new_request = ''r2''" "rr_id far_request = ''r3''"
  "rr_status member_request = Ride_matched" "rr_status new_request = Ride_pending"
  "rr_status far_request = Ride_pending"
  "passenger_count member_request = 3" "luggage_count member_request = 1"
  "passenger_count new_request = 1" "luggage_count new_request = 0"
  "passenger_count far_request = 1" "luggage_count far_request = 0"
  by (simp_all add: member_request_def new_request_def far_request_def meridian_request_fields)

text \<open>
  Inside \<^verbatim>\<open>cancelRideRequest\<close> the lookup of the pool comes after the membership rows
  have been deleted, so it finds none and the capacity is never recalculated: the
  table of pools is the same before and after every cancellation.
\<close>

lemma pool_lookup_after_delete:
  "filter (\<lambda>m. ride_request_id m = rid) (filter (\<lambda>m. ride_request_id m \<noteq> rid) members) = []"
  by (induction members) auto

lemma cancelRideRequest_keeps_pools:
  "ride_pools (fst (cancelRideRequest rid s)) = ride_pools s"
  by (simp add: cancelRideRequest_def transaction_def pool_lookup_after_delete Let_def
      split: list.splits)

text \<open>
  Claim C2 (counters equal the sums over the members). In the example database the
  counters are consistent. Cancelling the matched request removes its membership row
  and leaves the pool's counters at 3 passengers and 1 luggage for a pool without
  members, so they no longer equal the sums; removing the same member through
  \<^verbatim>\<open>removeMemberFromPool\<close> recalculates them.
\<close>

theorem cancel_matched_leaves_stale_counters:
  "counters_consistent db_example
   \<and> snd (cancelRideRequest ''r1'' db_example)
       = Inr (member_request\<lparr> rr_status := Ride_cancelled \<rparr>)
   \<and> pool_members (fst (cancelRideRequest ''r1'' db_example)) = []
   \<and> ride_pools (fst (cancelRideRequest ''r1'' db_example)) = [pool scenario_candidate]
   \<and> current_passenger_count (pool scenario_candidate) = 3
   \<and> current_luggage_count (pool scenario_candidate) = 1
   \<and> \<not> counters_consistent (fst (cancelRideRequest ''r1'' db_example))
   \<and> counters_consistent (fst (removeMemberFromPool ''p1'' ''r1'' db_example))"
  by (simp add: cancelRideRequest_def removeMemberFromPool_def transaction_def
      recalculatePoolCapacityInternal_def update_pool_counts_def
      counters_consistent_def pool_member_requests_def
      db_example_fields example_request_fields scenario_candidate_def Let_def)

subsection \<open>Membership rows\<close>

lemma recalculate_keeps_members:
  "pool_members (recalculatePoolCapacityInternal s poolId) = pool_members s"
  by (simp add: recalculatePoolCapacityInternal_def update_pool_counts_def Let_def)

lemma addMemberToPoolInternal_row:
  assumes "addMemberToPoolInternal cfg df s poolId rid = Inr s1"
  shows "\<exists>pr. pool_members s1 = pool_members s @
           [\<lparr> pool_id = poolId, ride_request_id = rid,
              pickup_sequence = member_count (pool_members s) poolId + 1,
              dropoff_sequence = 2 * (member_count (pool_members s) poolId + 1),
              detour_distance_km = 0, price = pr \<rparr>]"
  using assms
  by (auto simp add: addMemberToPoolInternal_def member_count_def Let_def
      split: list.splits if_splits)

lemma add_members_rows:
  assumes "add_members cfg df s poolId ids = Inr s2"
  shows "\<exists>rows. pool_members s2 = pool_members s @ rows \<and> length rows = length ids
           \<and> (\<forall>k < length rows.
                 pool_id (rows ! k) = poolId \<and> ride_request_id (rows ! k) = ids ! k
               \<and> detour_distance_km (rows ! k) = 0
               \<and> pickup_sequence (rows ! k)
                   = member_count (pool_members s @ take k rows) poolId + 1
               \<and> dropoff_sequence (rows ! k)
                   = 2 * (member_count (pool_members s @ take k rows) poolId + 1))"
  using assms
proof (induction ids arbitrary: s)
  case Nil
  then show ?case by simp
next
  case (Cons rid rest)
  from Cons.prems obtain s1 where
    a: "addMemberToPoolInternal cfg df s poolId rid = Inr s1"
    and b: "add_members cfg df s1 poolId rest = Inr s2"
    by (auto split: sum.splits)
  from addMemberToPoolInternal_row [OF a] obtain pr where
    r0: "pool_members s1 = pool_members s @
           [\<lparr> pool_id = poolId, ride_request_id = rid,
              pickup_sequence = member_count (pool_members s) poolId + 1,
              dropoff_sequence = 2 * (member_count (pool_members s) poolId + 1),
              detour_distance_km = 0, price = pr \<rparr>]"
    by blast
  let ?row = "\<lparr> pool_id = poolId, ride_request_id = rid,
              pickup_sequence = member_count (pool_members s) poolId + 1,
              dropoff_sequence = 2 * (member_count (pool_members s) poolId + 1),
              detour_distance_km = 0, price = pr \<rparr>"
  from Cons.IH [OF b] obtain rows where
    m: "pool_members s2 = pool_members s1 @ rows" and l: "length rows = length rest"
    and p: "\<forall>k < length rows.
                 pool_id (rows ! k) = poolId \<and> ride_request_id (rows ! k) = rest ! k
               \<and> detour_distance_km (rows ! k) = 0
               \<and> pickup_sequence (rows ! k)
                   = member_count (pool_members s1 @ take k rows) poolId + 1
               \<and> dropoff_sequence (rows ! k)
                   = 2 * (member_count (pool_members s1 @ take k rows) poolId + 1)"
    by blast
  have "\<forall>k < length (?row # rows).
          pool_id ((?row # rows) ! k) = poolId \<and> ride_request_id ((?row # rows) ! k) = (rid # rest) ! k
        \<and> detour_distance_km ((?row # rows) ! k) = 0
        \<and> pickup_sequence ((?row # rows) ! k)
            = member_count (pool_members s @ take k (?row # rows)) poolId + 1
        \<and> dropoff_sequence ((?row # rows) ! k)
            = 2 * (member_count (pool_members s @ take k (?row # rows)) poolId + 1)"
  proof (intro allI impI)
    fix k assume k: "k < length (?row # rows)"
    show "pool_id ((?row # rows) ! k) = poolId \<and> ride_request_id ((?row # rows) ! k) = (rid # rest) ! k
        \<and> detour_distance_km ((?row # rows) ! k) = 0
        \<and> pickup_sequence ((?row # rows) ! k)
            = member_count (pool_members s @ take k (?row # rows)) poolId + 1
        \<and> dropoff_sequence ((?row # rows) ! k)
            = 2 * (member_count (pool_members s @ take k (?row # rows)) poolId + 1)"
    proof (cases k)
      case 0
      then show ?thesis by simp
    next
      case (Suc k')
      with k have "k' < length rows" by simp
      with p Suc r0 show ?thesis by simp
    qed
  qed
  moreover have "pool_members s2 = pool_members s @ ?row # rows" using m r0 by simp
  moreover have "length (?row # rows) = length (rid # rest)" using l by simp
  ultimately show ?case by blast
qed

text \<open>
  Claim C10 (membership rows). Every membership row written by \<^verbatim>\<open>addMemberToPool\<close>
  or \<^verbatim>\<open>createPool\<close> has detour 0, pickup sequence \<open>n + 1\<close> and dropoff sequence
  \<open>2 \<cdot> (n + 1)\<close>, for \<open>n\<close> the number of rows the pool had when the row was written; the
  route and the rider's detour play no part.
\<close>

theorem member_rows_fixed_sequence:
  "(snd (addMemberToPool cfg df poolId rid s) = Inr () \<longrightarrow>
      (\<exists>pr. pool_members (fst (addMemberToPool cfg df poolId rid s)) = pool_members s @
           [\<lparr> pool_id = poolId, ride_request_id = rid,
              pickup_sequence = member_count (pool_members s) poolId + 1,
              dropoff_sequence = 2 * (member_count (pool_members s) poolId + 1),
              detour_distance_km = 0, price = pr \<rparr>]))
   \<and> (snd (createPool cfg df newId code ids s) = Inr p \<longrightarrow>
      (\<exists>rows. pool_members (fst (createPool cfg df newId code ids s)) = pool_members s @ rows
           \<and> length rows = length ids
           \<and> (\<forall>k < length rows.
                 pool_id (rows ! k) = newId \<and> ride_request_id (rows ! k) = ids ! k
               \<and> detour_distance_km (rows ! k) = 0
               \<and> pickup_sequence (rows ! k)
                   = member_count (pool_members s @ take k rows) newId + 1
               \<and> dropoff_sequence (rows ! k)
                   = 2 * (member_count (pool_members s @ take k rows) newId + 1))))"
proof (intro conjI impI)
  assume ok: "snd (addMemberToPool cfg df poolId rid s) = Inr ()"
  then obtain s1 where a: "addMemberToPoolInternal cfg df s poolId rid = Inr s1"
    and f: "fst (addMemberToPool cfg df poolId rid s) = recalculatePoolCapacityInternal s1 poolId"
    by (auto simp add: addMemberToPool_def transaction_def split: sum.splits)
  from addMemberToPoolInternal_row [OF a]
  show "\<exists>pr. pool_members (fst (addMemberToPool cfg df poolId rid s)) = pool_members s @
           [\<lparr> pool_id = poolId, ride_request_id = rid,
              pickup_sequence = member_count (pool_members s) poolId + 1,
              dropoff_sequence = 2 * (member_count (pool_members s) poolId + 1),
              detour_distance_km = 0, price = pr \<rparr>]"
    unfolding f recalculate_keeps_members .
next
  assume ok: "snd (createPool cfg df newId code ids s) = Inr p"
  let ?s1 = "s\<lparr> ride_pools := ride_pools s @
      [\<lparr> rp_id = newId, pool_code = code, rp_status = Pool_forming,
         current_passenger_count = 0, current_luggage_count = 0,
         max_passengers = maxPassengersPerPool cfg, max_luggage = maxLuggageCapacity cfg \<rparr>] \<rparr>"
  from ok obtain s2 where a: "add_members cfg df ?s1 newId ids = Inr s2"
    and f: "fst (createPool cfg df newId code ids s) = recalculatePoolCapacityInternal s2 newId"
    by (auto simp add: createPool_def transaction_def Let_def split: sum.splits if_splits)
  from add_members_rows [OF a]
  show "\<exists>rows. pool_members (fst (createPool cfg df newId code ids s)) = pool_members s @ rows
           \<and> length rows = length ids
           \<and> (\<forall>k < length rows.
                 pool_id (rows ! k) = newId \<and> ride_request_id (rows ! k) = ids ! k
               \<and> detour_distance_km (rows ! k) = 0
               \<and> pickup_sequence (rows ! k)
                   = member_count (pool_members s @ take k rows) newId + 1
               \<and> dropoff_sequence (rows ! k)
                   = 2 * (member_count (pool_members s @ take k rows) newId + 1))"
    unfolding f recalculate_keeps_members by simp
qed

theorem member_rows_fixed_sequence_witness:
  "snd (addMemberToPool default_config 0 ''p1'' ''r2'' db_example) = Inr ()
   \<and> (\<exists>pr. pool_members (fst (addMemberToPool default_config 0 ''p1'' ''r2'' db_example))
          = pool_members db_example @
              [\<lparr> pool_id = ''p1'', ride_request_id = ''r2'', pickup_sequence = 2,
                 dropoff_sequence = 4, detour_distance_km = 0, price = pr \<rparr>])
   \<and> (\<exists>p. snd (createPool default_config 0 ''p2'' ''POOLBBBBBB'' [''r2'', ''r3''] db_example)
          = Inr p)
   \<and> (\<exists>rows. pool_members (fst (createPool default_config 0 ''p2'' ''POOLBBBBBB''
                                  [''r2'', ''r3''] db_example))
            = pool_members db_example @ rows
          \<and> length rows = 2
          \<and> detour_distance_km (rows ! 0) = 0 \<and> detour_distance_km (rows ! 1) = 0
          \<and> pickup_sequence (rows ! 0) = 1 \<and> dropoff_sequence (rows ! 0) = 2
          \<and> pickup_sequence (rows ! 1) = 2 \<and> dropoff_sequence (rows ! 1) = 4)"
proof -
  let ?add = "addMemberToPool default_config 0 ''p1'' ''r2'' db_example"
  let ?new = "\<lparr> rp_id = ''p2'', pool_code = ''POOLBBBBBB'', rp_status = Pool_forming,
      current_passenger_count = 0, current_luggage_count = 0,
      max_passengers = 4, max_luggage = 8 \<rparr>"
  let ?create = "createPool default_config 0 ''p2'' ''POOLBBBBBB'' [''r2'', ''r3''] db_example"
  have h1: "snd ?add = Inr ()"
    by (simp add: addMemberToPool_def transaction_def addMemberToPoolInternal_def
        db_example_fields example_request_fields scenario_candidate_def Let_def)
  have h2: "snd ?create = Inr ?new"
    by (simp add: createPool_def transaction_def addMemberToPoolInternal_def
        db_example_fields example_request_fields scenario_candidate_def
        default_config_fields Let_def)
  note t = member_rows_fixed_sequence [of default_config 0 "''p1''" "''r2''" db_example
      "''p2''" "''POOLBBBBBB''" "[''r2'', ''r3'']" ?new]
  have c0: "member_count (pool_members db_example) ''p1'' = 1"
    and c1: "member_count (pool_members db_example) ''p2'' = 0"
    by (simp_all add: member_count_def db_example_fields scenario_candidate_def)
  from t h1 have a: "\<exists>pr. pool_members (fst ?add) = pool_members db_example @
              [\<lparr> pool_id = ''p1'', ride_request_id = ''r2'', pickup_sequence = 2,
                 dropoff_sequence = 4, detour_distance_km = 0, price = pr \<rparr>]"
    by (simp add: c0)
  from t h2 obtain rows where m: "pool_members (fst ?create) = pool_members db_example @ rows"
    and l: "length rows = 2"
    and p: "\<forall>k < length rows.
                 pool_id (rows ! k) = ''p2'' \<and> ride_request_id (rows ! k) = [''r2'', ''r3''] ! k
               \<and> detour_distance_km (rows ! k) = 0
               \<and> pickup_sequence (rows ! k)
                   = member_count (pool_members db_example @ take k rows) ''p2'' + 1
               \<and> dropoff_sequence (rows ! k)
                   = 2 * (member_count (pool_members db_example @ take k rows) ''p2'' + 1)"
    by auto
  from l obtain x y where xy: "rows = [x, y]"
    by (cases rows; cases "tl rows") auto
  have k0: "0 < length rows" and k1: "1 < length rows" using l by simp_all
  from p [rule_format, OF k0] have p0: "pool_id x = ''p2''" "detour_distance_km x = 0"
      "pickup_sequence x = 1" "dropoff_sequence x = 2"
    unfolding xy by (simp_all add: c1)
  have t1: "member_count (pool_members db_example @ take 1 rows) ''p2'' = 1"
    using p0(1) by (simp add: xy member_count_def db_example_fields scenario_candidate_def)
  from p [rule_format, OF k1] have p1: "detour_distance_km y = 0"
      "pickup_sequence y = 2" "dropoff_sequence y = 4"
    unfolding t1 by (simp_all add: xy)
  have "detour_distance_km (rows ! 0) = 0 \<and> detour_distance_km (rows ! 1) = 0
          \<and> pickup_sequence (rows ! 0) = 1 \<and> dropoff_sequence (rows ! 0) = 2
          \<and> pickup_sequence (rows ! 1) = 2 \<and> dropoff_sequence (rows ! 1) = 4"
    using p0 p1 c1 by (simp add: xy)
  with m l have b: "\<exists>rows. pool_members (fst ?create) = pool_members db_example @ rows
          \<and> length rows = 2
          \<and> detour_distance_km (rows ! 0) = 0 \<and> detour_distance_km (rows ! 1) = 0
          \<and> pickup_sequence (rows ! 0) = 1 \<and> dropoff_sequence (rows ! 0) = 2
          \<and> pickup_sequence (rows ! 1) = 2 \<and> dropoff_sequence (rows ! 1) = 4"
    by blast
  from h1 a h2 b show ?thesis by blast
qed

end
